theory Spec2Isabelle
  imports Main "HOL-Library.Word"
begin

section \<open>Strings and JSON values\<close>

text \<open>
  A JavaScript string is a sequence of UTF-16 code units and \<open>.length\<close> counts them,
  so a string is a list of 16-bit words. The literals of the source are ASCII and are
  written \<open>js ''...''\<close>; the pictographs of the run log are given by their code units.
\<close>

type_synonym jstring = "16 word list"

definition js :: "string \<Rightarrow> jstring" where
  "js s = map of_char s"

text \<open>Decimal rendering of a natural number, as a template literal prints a status or a length.\<close>

fun show_nat :: "nat \<Rightarrow> string" where
  "show_nat n =
     (if n < 10 then [''0123456789'' ! n]
      else show_nat (n div 10) @ [''0123456789'' ! (n mod 10)])"

declare show_nat.simps [simp del]

definition show_int :: "int \<Rightarrow> string" where
  "show_int i = (if i < 0 then CHR ''-'' # show_nat (nat (- i)) else show_nat (nat i))"

text \<open>
  Surrogates. A high surrogate followed by a low one is a pair, one code point; any
  other surrogate is a lone one. \<open>to_usv s\<close> is the conversion to a \<open>USVString\<close>, which
  \<open>URLSearchParams\<close> applies to what it is given: every lone surrogate becomes U+FFFD.
\<close>

definition is_high :: "16 word \<Rightarrow> bool" where
  "is_high c \<longleftrightarrow> 0xD800 \<le> c \<and> c \<le> 0xDBFF"

definition is_low :: "16 word \<Rightarrow> bool" where
  "is_low c \<longleftrightarrow> 0xDC00 \<le> c \<and> c \<le> 0xDFFF"

fun to_usv :: "jstring \<Rightarrow> jstring" where
  "to_usv [] = []"
| "to_usv [c] = (if is_high c \<or> is_low c then [0xFFFD] else [c])"
| "to_usv (c # d # cs) =
     (if is_high c \<and> is_low d then c # d # to_usv cs
      else if is_high c \<or> is_low c then 0xFFFD # to_usv (d # cs)
      else c # to_usv (d # cs))"

text \<open>
  A parsed JSON value. An object keeps its members in the order of the text; a member
  that is repeated is read at its last occurrence, as \<open>JSON.parse\<close> does. Numbers are
  integers here, the counts that the handlers pass on: integers of the range that
  JavaScript holds and prints exactly.
\<close>

datatype json =
    JNull
  | JBool bool
  | JNum int
  | JStr jstring
  | JArr "json list"
  | JObj "(jstring \<times> json) list"

text \<open>
  A JavaScript value that may be \<open>undefined\<close> is a \<open>json option\<close>, \<open>None\<close> being
  \<open>undefined\<close>. \<open>get_prop k v\<close> is the read \<open>v.k\<close> on a value that is not \<open>null\<close>: an
  own member of an object, and \<open>undefined\<close> on a number, a boolean, a string or an array
  (none of the names read by this program is a method or an index of these).
\<close>

fun get_prop :: "jstring \<Rightarrow> json \<Rightarrow> json option" where
  "get_prop k (JObj kvs) = map_of (rev kvs) k"
| "get_prop k _ = None"

text \<open>\<open>opt v k\<close> is the optional chain \<open>v?.k\<close>.\<close>

fun opt :: "json option \<Rightarrow> jstring \<Rightarrow> json option" where
  "opt None k = None"
| "opt (Some JNull) k = None"
| "opt (Some v) k = get_prop k v"

text \<open>\<open>nullish_or v d\<close> is \<open>v ?? d\<close>.\<close>

fun nullish_or :: "json option \<Rightarrow> json \<Rightarrow> json" where
  "nullish_or None d = d"
| "nullish_or (Some JNull) d = d"
| "nullish_or (Some v) d = v"


text \<open>Truthiness, as \<open>!v\<close> and \<open>Boolean(v)\<close> test it.\<close>

fun truthy :: "json option \<Rightarrow> bool" where
  "truthy None = False"
| "truthy (Some JNull) = False"
| "truthy (Some (JBool b)) = b"
| "truthy (Some (JNum n)) = (n \<noteq> 0)"
| "truthy (Some (JStr s)) = (s \<noteq> [])"
| "truthy (Some (JArr xs)) = True"
| "truthy (Some (JObj kvs)) = True"

section \<open>Exceptions\<close>

text \<open>
  What a handler can catch: a \<open>ZodError\<close> with its issues, or another \<open>Error\<close> with its
  message (a rejected \<open>fetch\<close>, a body that is not JSON, a \<open>TypeError\<close>); nothing that
  is not an \<open>Error\<close> is thrown, so the last branch of the \<open>catch\<close> clauses is never
  taken. The text of a \<open>TypeError\<close> or \<open>RangeError\<close> raised by the engine (a read on
  \<open>null\<close>, a call of something that is not a function, an object that has no string
  conversion, a status that a response cannot carry) belongs to the engine and the
  build, so each function that can raise one takes the text as a parameter \<open>fm\<close>.
\<close>

datatype js_fault =
    ReadOfNullish jstring
  | NotAFunction jstring
  | DestructureOfNullish
  | NotPrimitive
  | StatusOutOfRange nat
  | NullBodyStatus nat

record issue =
  path :: "jstring list"
  message :: jstring

datatype exn =
    ZodError "issue list"
  | Error jstring

fun traverse :: "('a \<Rightarrow> exn + 'b) \<Rightarrow> 'a list \<Rightarrow> exn + 'b list" where
  "traverse f [] = Inr []"
| "traverse f (x # xs) =
     (case f x of
        Inl e \<Rightarrow> Inl e
      | Inr y \<Rightarrow> (case traverse f xs of Inl e \<Rightarrow> Inl e | Inr ys \<Rightarrow> Inr (y # ys)))"

section \<open>Request validation (zod)\<close>

text \<open>
  The three \<open>bodySchema\<close>s are \<open>z.object\<close> of two \<open>z.string().min(n, msg)\<close> fields. The
  validator's behaviour on them: a payload that is not an object gives one issue
  \<open>Expected object, received t\<close>; otherwise each field is checked in the order of the
  schema and every issue is kept: \<open>Required\<close> for a missing field,
  \<open>Expected string, received t\<close> for a value of another type, and the schema's own
  message for a string shorter than \<open>n\<close>.
\<close>

fun parsedType :: "json \<Rightarrow> jstring" where
  "parsedType JNull = js ''null''"
| "parsedType (JBool b) = js ''boolean''"
| "parsedType (JNum n) = js ''number''"
| "parsedType (JStr s) = js ''string''"
| "parsedType (JArr xs) = js ''array''"
| "parsedType (JObj kvs) = js ''object''"

fun z_string_min :: "nat \<Rightarrow> jstring \<Rightarrow> jstring \<Rightarrow> json option \<Rightarrow> issue list + jstring" where
  "z_string_min n msg k None = Inl [\<lparr>path = [k], message = js ''Required''\<rparr>]"
| "z_string_min n msg k (Some (JStr s)) =
     (if length s < n then Inl [\<lparr>path = [k], message = msg\<rparr>] else Inr s)"
| "z_string_min n msg k (Some v) =
     Inl [\<lparr>path = [k], message = js ''Expected string, received '' @ parsedType v\<rparr>]"

fun issues_of :: "issue list + 'a \<Rightarrow> issue list" where
  "issues_of (Inl is) = is"
| "issues_of (Inr v) = []"

text \<open>
  \<open>z_object2 n1 m1 k1 n2 m2 k2\<close> is \<open>z.object({k1: z.string().min(n1, m1),
  k2: z.string().min(n2, m2)}).parse\<close>: the two strings, or the \<open>ZodError\<close>.
\<close>

fun z_object2 ::
  "nat \<Rightarrow> jstring \<Rightarrow> jstring \<Rightarrow> nat \<Rightarrow> jstring \<Rightarrow> jstring \<Rightarrow> json \<Rightarrow> exn + (jstring \<times> jstring)"
where
  "z_object2 n1 m1 k1 n2 m2 k2 (JObj kvs) =
     (let r1 = z_string_min n1 m1 k1 (get_prop k1 (JObj kvs));
          r2 = z_string_min n2 m2 k2 (get_prop k2 (JObj kvs))
      in case (r1, r2) of
           (Inr a, Inr b) \<Rightarrow> Inr (a, b)
         | _ \<Rightarrow> Inl (ZodError (issues_of r1 @ issues_of r2)))"
| "z_object2 n1 m1 k1 n2 m2 k2 v =
     Inl (ZodError [\<lparr>path = [], message = js ''Expected object, received '' @ parsedType v\<rparr>])"

definition bodySchema_search :: "json \<Rightarrow> exn + (jstring \<times> jstring)" where
  "bodySchema_search =
     z_object2 10 (js ''API key is required'') (js ''apiKey'')
               2 (js ''Search query is required'') (js ''query'')"

definition bodySchema_comments :: "json \<Rightarrow> exn + (jstring \<times> jstring)" where
  "bodySchema_comments =
     z_object2 10 (js ''API key is required'') (js ''apiKey'')
               3 (js ''Video ID is required'') (js ''videoId'')"

definition bodySchema_channel :: "json \<Rightarrow> exn + (jstring \<times> jstring)" where
  "bodySchema_channel =
     z_object2 10 (js ''API key is required'') (js ''apiKey'')
               3 (js ''Channel ID is required'') (js ''channelId'')"

section \<open>The proxy handlers\<close>

text \<open>
  A handler receives the request body and the outbound \<open>fetch\<close>, and returns its reply
  together with the outbound requests it has made, in order. The request body is
  \<open>Inl m\<close> when \<open>request.json()\<close> rejects with message \<open>m\<close>, else the parsed value.
  An outbound request is the endpoint with the query parameters set on it, each value
  as the \<open>USVString\<close> that \<open>searchParams.set\<close> makes of it (the option
  \<open>cache: "no-store"\<close> is the same in every call). \<open>fetch\<close>
  either rejects with a message or answers with a status and a body, whose \<open>json()\<close>
  again rejects (\<open>Inl\<close>) or yields a value.
\<close>

type_synonym ext_request = "jstring \<times> (jstring \<times> jstring) list"

datatype fetch_result =
    Rejected jstring
  | Responded nat "jstring + json"

datatype reply = Reply (status: nat) (body: json)

definition ok :: "nat \<Rightarrow> bool" where
  "ok st \<longleftrightarrow> 200 \<le> st \<and> st \<le> 299"

text \<open>
  \<open>NextResponse.json(body, {status})\<close> builds a response with a body, which the Fetch
  standard allows only for a status from 200 to 599 that is not a null body status:
  otherwise the constructor throws, a \<open>RangeError\<close> for the range and a \<open>TypeError\<close> for
  a null body status. The handlers call it with the fixed statuses 200 (the default),
  400 and 404, where it returns, and with the status relayed from the platform.
\<close>

definition null_body_status :: "nat \<Rightarrow> bool" where
  "null_body_status st \<longleftrightarrow> st \<in> {101, 103, 204, 205, 304}"

definition NextResponse_json :: "(js_fault \<Rightarrow> jstring) \<Rightarrow> json \<Rightarrow> nat \<Rightarrow> exn + reply" where
  "NextResponse_json fm b st =
     (if st < 200 \<or> 599 < st then Inl (Error (fm (StatusOutOfRange st)))
      else if null_body_status st then Inl (Error (fm (NullBodyStatus st)))
      else Inr (Reply st b))"

text \<open>The \<open>catch\<close> clause, the same in the three handlers.\<close>

fun catch_reply :: "exn \<Rightarrow> reply" where
  "catch_reply (ZodError is) =
     Reply 400 (JObj [(js ''error'',
       JStr (case is of [] \<Rightarrow> js ''Invalid payload'' | i # _ \<Rightarrow> message i))])"
| "catch_reply (Error m) = Reply 400 (JObj [(js ''error'', JStr m)])"

text \<open>
  The branch \<open>if (!response.ok)\<close>, the same in the three handlers.
  \<open>platform_message bdy\<close> is \<open>errorPayload?.error?.message\<close>, where \<open>errorPayload\<close> is
  the body, or \<open>{}\<close> when it does not parse. The branch is inside the \<open>try\<close>, so when
  the response cannot carry the relayed status the \<open>catch\<close> clause answers.
\<close>

definition platform_message :: "jstring + json \<Rightarrow> json option" where
  "platform_message bdy =
     (let errorPayload = (case bdy of Inl m \<Rightarrow> JObj [] | Inr v \<Rightarrow> v)
      in opt (opt (Some errorPayload) (js ''error'')) (js ''message''))"

definition not_ok_reply :: "(js_fault \<Rightarrow> jstring) \<Rightarrow> nat \<Rightarrow> jstring + json \<Rightarrow> reply" where
  "not_ok_reply fm st bdy =
     (let message = nullish_or (platform_message bdy)
                      (JStr (js ''YouTube API responded with '' @ js (show_nat st)))
      in case NextResponse_json fm (JObj [(js ''error'', message)]) st of
           Inl e \<Rightarrow> catch_reply e
         | Inr r \<Rightarrow> r)"

text \<open>The read \<open>v.k\<close> without a guard: a \<open>TypeError\<close> on \<open>null\<close>.\<close>

definition read_prop :: "(js_fault \<Rightarrow> jstring) \<Rightarrow> jstring \<Rightarrow> json \<Rightarrow> exn + json option" where
  "read_prop fm k v = (if v = JNull then Inl (Error (fm (ReadOfNullish k))) else Inr (get_prop k v))"

text \<open>
  \<open>thumbnail_of sn\<close> is \<open>sn?.thumbnails?.high?.url ?? sn?.thumbnails?.medium?.url ??
  sn?.thumbnails?.default?.url ?? ""\<close>, for the snippet \<open>sn\<close>.
\<close>

definition thumbnail_of :: "json option \<Rightarrow> json" where
  "thumbnail_of sn =
     nullish_or (opt (opt (opt sn (js ''thumbnails'')) (js ''high'')) (js ''url''))
    (nullish_or (opt (opt (opt sn (js ''thumbnails'')) (js ''medium'')) (js ''url''))
    (nullish_or (opt (opt (opt sn (js ''thumbnails'')) (js ''default'')) (js ''url''))
                (JStr (js ''''))))"

subsection \<open>search/route.ts\<close>

text \<open>
  The object that the function mapped over the items returns for \<open>item\<close>, and the
  function itself: its first read, \<open>item.id\<close>, is a \<open>TypeError\<close> on \<open>null\<close>.
\<close>

definition video_of :: "json \<Rightarrow> json" where
  "video_of item =
     (let ident = get_prop (js ''id'') item;
          snippet = get_prop (js ''snippet'') item
      in JObj
        [(js ''id'', nullish_or (opt ident (js ''videoId'')) (JStr (js ''''))),
         (js ''title'', nullish_or (opt snippet (js ''title'')) (JStr (js ''Untitled video''))),
         (js ''description'', nullish_or (opt snippet (js ''description'')) (JStr (js ''''))),
         (js ''thumbnail'', thumbnail_of snippet),
         (js ''publishedAt'', nullish_or (opt snippet (js ''publishedAt'')) (JStr (js ''''))),
         (js ''channelTitle'',
            nullish_or (opt snippet (js ''channelTitle'')) (JStr (js ''Unknown channel'')))])"

definition search_item :: "(js_fault \<Rightarrow> jstring) \<Rightarrow> json \<Rightarrow> exn + json" where
  "search_item fm item =
     (case read_prop fm (js ''id'') item of
        Inl e \<Rightarrow> Inl e
      | Inr ident \<Rightarrow> Inr (video_of item))"

text \<open>\<open>result.items?.map(f) ?? []\<close>\<close>

definition items_map ::
  "(js_fault \<Rightarrow> jstring) \<Rightarrow> (json \<Rightarrow> exn + 'a) \<Rightarrow> json \<Rightarrow> exn + 'a list"
where
  "items_map fm f result =
     (case read_prop fm (js ''items'') result of
        Inl e \<Rightarrow> Inl e
      | Inr None \<Rightarrow> Inr []
      | Inr (Some JNull) \<Rightarrow> Inr []
      | Inr (Some (JArr its)) \<Rightarrow> traverse f its
      | Inr (Some v) \<Rightarrow> Inl (Error (fm (NotAFunction (js ''map'')))))"

definition search_url :: "jstring \<Rightarrow> jstring \<Rightarrow> ext_request" where
  "search_url apiKey query =
     (js ''https://www.googleapis.com/youtube/v3/search'',
      [(js ''part'', js ''snippet''), (js ''maxResults'', js ''10''), (js ''order'', js ''date''),
       (js ''type'', js ''video''), (js ''q'', to_usv query), (js ''key'', to_usv apiKey)])"

definition POST_search ::
  "(js_fault \<Rightarrow> jstring) \<Rightarrow> (ext_request \<Rightarrow> fetch_result) \<Rightarrow> jstring + json
     \<Rightarrow> reply \<times> ext_request list"
where
  "POST_search fm fetch request_json =
     (case request_json of
        Inl m \<Rightarrow> (catch_reply (Error m), [])
      | Inr payload \<Rightarrow>
     (case bodySchema_search payload of
        Inl e \<Rightarrow> (catch_reply e, [])
      | Inr (apiKey, query) \<Rightarrow>
     (let url = search_url apiKey query in
      case fetch url of
        Rejected m \<Rightarrow> (catch_reply (Error m), [url])
      | Responded st bdy \<Rightarrow>
          if \<not> ok st then (not_ok_reply fm st bdy, [url])
          else (case bdy of
                  Inl m \<Rightarrow> (catch_reply (Error m), [url])
                | Inr result \<Rightarrow>
                    (case items_map fm (search_item fm) result of
                       Inl e \<Rightarrow> (catch_reply e, [url])
                     | Inr data \<Rightarrow> (Reply 200 (JObj [(js ''data'', JArr data)]), [url]))))))"

subsection \<open>comments/route.ts\<close>

text \<open>
  The function mapped over the items: \<open>None\<close> is its \<open>return null\<close>, and
  \<open>comment_of item\<close> the object it returns otherwise. Its first read,
  \<open>item.snippet\<close>, is a \<open>TypeError\<close> on \<open>null\<close>.
\<close>

definition topLevel_of :: "json \<Rightarrow> json option" where
  "topLevel_of item = opt (get_prop (js ''snippet'') item) (js ''topLevelComment'')"

definition comment_of :: "json \<Rightarrow> json" where
  "comment_of item =
     (let topLevel = topLevel_of item;
          tsnippet = opt topLevel (js ''snippet'')
      in JObj
        [(js ''id'', nullish_or (opt topLevel (js ''id''))
                       (nullish_or (get_prop (js ''id'') item) (JStr (js '''')))),
         (js ''author'',
            nullish_or (opt tsnippet (js ''authorDisplayName'')) (JStr (js ''Unknown author''))),
         (js ''text'', nullish_or (opt tsnippet (js ''textDisplay'')) (JStr (js ''''))),
         (js ''likeCount'', nullish_or (opt tsnippet (js ''likeCount'')) (JNum 0)),
         (js ''publishedAt'', nullish_or (opt tsnippet (js ''publishedAt'')) (JStr (js '''')))])"

definition comment_item :: "(js_fault \<Rightarrow> jstring) \<Rightarrow> json \<Rightarrow> exn + json option" where
  "comment_item fm item =
     (case read_prop fm (js ''snippet'') item of
        Inl e \<Rightarrow> Inl e
      | Inr snippet \<Rightarrow>
          if \<not> truthy (topLevel_of item) then Inr None else Inr (Some (comment_of item)))"

text \<open>\<open>.filter(Boolean)\<close> on the mapped list: the objects stay, the \<open>null\<close>s go.\<close>

definition filter_Boolean :: "json option list \<Rightarrow> json list" where
  "filter_Boolean xs = List.map_filter (\<lambda>x. x) xs"

definition comments_url :: "jstring \<Rightarrow> jstring \<Rightarrow> ext_request" where
  "comments_url apiKey videoId =
     (js ''https://www.googleapis.com/youtube/v3/commentThreads'',
      [(js ''part'', js ''snippet''), (js ''maxResults'', js ''50''), (js ''videoId'', to_usv videoId),
       (js ''textFormat'', js ''plainText''), (js ''order'', js ''relevance''), (js ''key'', to_usv apiKey)])"

definition POST_comments ::
  "(js_fault \<Rightarrow> jstring) \<Rightarrow> (ext_request \<Rightarrow> fetch_result) \<Rightarrow> jstring + json
     \<Rightarrow> reply \<times> ext_request list"
where
  "POST_comments fm fetch request_json =
     (case request_json of
        Inl m \<Rightarrow> (catch_reply (Error m), [])
      | Inr payload \<Rightarrow>
     (case bodySchema_comments payload of
        Inl e \<Rightarrow> (catch_reply e, [])
      | Inr (apiKey, videoId) \<Rightarrow>
     (let url = comments_url apiKey videoId in
      case fetch url of
        Rejected m \<Rightarrow> (catch_reply (Error m), [url])
      | Responded st bdy \<Rightarrow>
          if \<not> ok st then (not_ok_reply fm st bdy, [url])
          else (case bdy of
                  Inl m \<Rightarrow> (catch_reply (Error m), [url])
                | Inr result \<Rightarrow>
                    (case items_map fm (comment_item fm) result of
                       Inl e \<Rightarrow> (catch_reply e, [url])
                     | Inr mapped \<Rightarrow>
                         (Reply 200 (JObj [(js ''data'', JArr (filter_Boolean mapped))]), [url]))))))"

subsection \<open>The channel handler\<close>

text \<open>
  \<open>index0 v\<close> is \<open>v?.[0]\<close>: the first element of an array, the first code unit of a
  string, the member \<open>"0"\<close> of an object, and \<open>undefined\<close> otherwise.
\<close>

fun index0 :: "json option \<Rightarrow> json option" where
  "index0 None = None"
| "index0 (Some JNull) = None"
| "index0 (Some (JArr xs)) = (case xs of [] \<Rightarrow> None | x # _ \<Rightarrow> Some x)"
| "index0 (Some (JStr s)) = (case s of [] \<Rightarrow> None | c # _ \<Rightarrow> Some (JStr [c]))"
| "index0 (Some (JObj kvs)) = get_prop (js ''0'') (JObj kvs)"
| "index0 (Some v) = None"

definition channel_url :: "jstring \<Rightarrow> jstring \<Rightarrow> ext_request" where
  "channel_url apiKey channelId =
     (js ''https://www.googleapis.com/youtube/v3/channels'',
      [(js ''part'', js ''snippet,statistics''), (js ''id'', to_usv channelId), (js ''key'', to_usv apiKey)])"

text \<open>
  The built-in \<open>Number(v)\<close>, as the reply's JSON shows its result, is the parameter
  \<open>num\<close> of the handler.
\<close>

definition channel_data :: "(json \<Rightarrow> json) \<Rightarrow> json \<Rightarrow> json" where
  "channel_data num channel =
     (let snippet = get_prop (js ''snippet'') channel;
          statistics = get_prop (js ''statistics'') channel;
          thumbnail = thumbnail_of snippet
      in JObj
        [(js ''title'', nullish_or (opt snippet (js ''title'')) (JStr (js ''Unknown channel''))),
         (js ''description'', nullish_or (opt snippet (js ''description'')) (JStr (js ''''))),
         (js ''thumbnail'', thumbnail),
         (js ''subscriberCount'', num (nullish_or (opt statistics (js ''subscriberCount'')) (JNum 0))),
         (js ''viewCount'', num (nullish_or (opt statistics (js ''viewCount'')) (JNum 0))),
         (js ''videoCount'', num (nullish_or (opt statistics (js ''videoCount'')) (JNum 0)))])"

definition channel_not_found :: reply where
  "channel_not_found =
     Reply 404 (JObj [(js ''error'', JStr (js ''Channel not found. Double-check the channel ID.''))])"

definition POST_channel ::
  "(js_fault \<Rightarrow> jstring) \<Rightarrow> (json \<Rightarrow> json) \<Rightarrow> (ext_request \<Rightarrow> fetch_result) \<Rightarrow> jstring + json
     \<Rightarrow> reply \<times> ext_request list"
where
  "POST_channel fm num fetch request_json =
     (case request_json of
        Inl m \<Rightarrow> (catch_reply (Error m), [])
      | Inr payload \<Rightarrow>
     (case bodySchema_channel payload of
        Inl e \<Rightarrow> (catch_reply e, [])
      | Inr (apiKey, channelId) \<Rightarrow>
     (let url = channel_url apiKey channelId in
      case fetch url of
        Rejected m \<Rightarrow> (catch_reply (Error m), [url])
      | Responded st bdy \<Rightarrow>
          if \<not> ok st then (not_ok_reply fm st bdy, [url])
          else (case bdy of
                  Inl m \<Rightarrow> (catch_reply (Error m), [url])
                | Inr result \<Rightarrow>
                    (case read_prop fm (js ''items'') result of
                       Inl e \<Rightarrow> (catch_reply e, [url])
                     | Inr items \<Rightarrow>
                         (case index0 items of
                            None \<Rightarrow> (channel_not_found, [url])
                          | Some channel \<Rightarrow>
                              if \<not> truthy (Some channel) then (channel_not_found, [url])
                              else (Reply 200 (JObj [(js ''data'', channel_data num channel)]),
                                    [url])))))))"

section \<open>The page: workflows, run log and runner\<close>

text \<open>
  The types of the page. The field \<open>id\<close> of a step is \<open>step_id\<close> and its \<open>type\<close> is
  \<open>step_type\<close>; the \<open>id\<close> of a workflow is \<open>wf_id\<close>. The configuration of a step, a
  \<open>Record<string, string>\<close>, is the list of its entries; \<open>step.config.k\<close> reads the
  entry of the key \<open>k\<close> (the last one, should the list repeat a key) and is
  \<open>undefined\<close>, here \<open>None\<close>, when there is none.
\<close>

datatype WorkflowStepType = channelStats | searchVideos | fetchComments

record WorkflowStep =
  step_id :: jstring
  step_type :: WorkflowStepType
  config :: "(jstring \<times> jstring) list"

definition config_entry :: "WorkflowStep \<Rightarrow> jstring \<Rightarrow> jstring option" where
  "config_entry step k = map_of (rev (config step)) k"

datatype WorkflowSchedule = manual | daily | hourly

record AutomationWorkflow =
  wf_id :: jstring
  name :: jstring
  schedule :: WorkflowSchedule
  steps :: "WorkflowStep list"

fun scheduleLabel :: "WorkflowSchedule \<Rightarrow> jstring" where
  "scheduleLabel manual = js ''Run on demand''"
| "scheduleLabel daily = js ''Run daily''"
| "scheduleLabel hourly = js ''Run hourly''"

text \<open>The state of \<open>HomePage\<close> that the runner and the storage effects read or write.\<close>

record page_state =
  apiKey :: jstring
  channelId :: jstring
  searchQuery :: jstring
  commentsVideoId :: jstring
  workflows :: "AutomationWorkflow list"
  selectedWorkflowId :: "jstring option"
  runLog :: "jstring list"
  isRunningWorkflow :: bool

text \<open>
  The page is mounted with its state, or it has crashed: an error thrown while React
  renders, which no \<open>try\<close> of the page encloses, takes the component and its state
  away. The argument of every \<open>setRunLog\<close> of the source is an updater
  \<open>(prev) => [line, ...prev]\<close>, whose \<open>line\<close> is a template that React evaluates when it
  renders, after the call has returned: \<open>Inr\<close> the line, or \<open>Inl\<close> the message of the
  error that evaluating the template throws. Updates of a crashed page are lost.
\<close>

datatype page = Mounted page_state | Crashed jstring

fun setRunLog :: "jstring + jstring \<Rightarrow> page \<Rightarrow> page" where
  "setRunLog (Inr line) (Mounted s) = Mounted (s\<lparr>runLog := line # runLog s\<rparr>)"
| "setRunLog (Inl m) (Mounted s) = Crashed m"
| "setRunLog u (Crashed m) = Crashed m"

fun setIsRunningWorkflow :: "bool \<Rightarrow> page \<Rightarrow> page" where
  "setIsRunningWorkflow b (Mounted s) = Mounted (s\<lparr>isRunningWorkflow := b\<rparr>)"
| "setIsRunningWorkflow b (Crashed m) = Crashed m"

subsection \<open>String conversion\<close>

text \<open>
  \<open>intercalate sep xs\<close> joins with a separator. \<open>toString_js fm v\<close> is the string that a
  template literal, \<open>join\<close> or \<open>new Error(v)\<close> makes of a value, or the message of the
  \<open>TypeError\<close> it throws: an array is its elements joined by commas, \<open>null\<close> among them
  being the empty string; an object is \<open>[object Object]\<close>, unless it has a member
  \<open>toString\<close> of its own, which hides the method and leaves no conversion.
\<close>

fun intercalate :: "jstring \<Rightarrow> jstring list \<Rightarrow> jstring" where
  "intercalate sep [] = []"
| "intercalate sep [x] = x"
| "intercalate sep (x # y # ys) = x @ sep @ intercalate sep (y # ys)"

fun toString_js :: "(js_fault \<Rightarrow> jstring) \<Rightarrow> json \<Rightarrow> jstring + jstring"
  and toString_elements :: "(js_fault \<Rightarrow> jstring) \<Rightarrow> json list \<Rightarrow> jstring + jstring list"
where
  "toString_js fm JNull = Inr (js ''null'')"
| "toString_js fm (JBool b) = Inr (if b then js ''true'' else js ''false'')"
| "toString_js fm (JNum n) = Inr (js (show_int n))"
| "toString_js fm (JStr s) = Inr s"
| "toString_js fm (JArr xs) =
     (case toString_elements fm xs of
        Inl m \<Rightarrow> Inl m
      | Inr ss \<Rightarrow> Inr (intercalate (js '','') ss))"
| "toString_js fm (JObj kvs) =
     (if get_prop (js ''toString'') (JObj kvs) = None then Inr (js ''[object Object]'')
      else Inl (fm NotPrimitive))"
| "toString_elements fm [] = Inr []"
| "toString_elements fm (x # xs) =
     (case (if x = JNull then Inr [] else toString_js fm x) of
        Inl m \<Rightarrow> Inl m
      | Inr s \<Rightarrow> (case toString_elements fm xs of Inl m \<Rightarrow> Inl m | Inr ss \<Rightarrow> Inr (s # ss)))"

text \<open>A value in a template literal, and an element in \<open>join\<close>.\<close>

fun template :: "(js_fault \<Rightarrow> jstring) \<Rightarrow> json option \<Rightarrow> jstring + jstring" where
  "template fm None = Inr (js ''undefined'')"
| "template fm (Some v) = toString_js fm v"

fun join_item :: "(js_fault \<Rightarrow> jstring) \<Rightarrow> json option \<Rightarrow> jstring + jstring" where
  "join_item fm None = Inr []"
| "join_item fm (Some JNull) = Inr []"
| "join_item fm (Some v) = toString_js fm v"

fun template_str :: "jstring option \<Rightarrow> jstring" where
  "template_str None = js ''undefined''"
| "template_str (Some s) = s"

subsection \<open>The marks of the run log\<close>

text \<open>
  The characters that open the lines of the log, and the one between the titles of a
  search, by their UTF-16 code units, as the text of the source has them.
\<close>

definition mark_warning :: jstring where "mark_warning = [0x201A, 0xF6, 0x2020, 0xD4, 0x220F, 0xE8]"
definition mark_running :: jstring where "mark_running = [0x201A, 0xF1, 0x2202, 0xD4, 0x220F, 0xE8]"
definition mark_check :: jstring where "mark_check = [0x201A, 0xFA, 0xD6]"
definition mark_search :: jstring where "mark_search = [0xF8FF, 0xFC, 0xEE, 0xE7]"
definition mark_comments :: jstring where "mark_comments = [0xF8FF, 0xFC, 0xED, 0xA8]"
definition mark_cross :: jstring where "mark_cross = [0x201A, 0xF9, 0xE5]"
definition bullet :: jstring where "bullet = [0x201A, 0xC4, 0xA2]"

subsection \<open>One step\<close>

text \<open>
  The runner's \<open>fetch\<close> goes to the page's own endpoints; it is given the state of the
  world \<open>'w\<close> and returns the next one, so the same request can be answered differently
  at different times. A request is the path and the body that \<open>JSON.stringify\<close> is
  applied to.
\<close>

type_synonym local_request = "jstring \<times> json"

text \<open>
  \<open>const { error } = await response.json(); throw new Error(error ?? fallback)\<close>: the
  message of what is thrown.
\<close>

definition thrown_not_ok :: "(js_fault \<Rightarrow> jstring) \<Rightarrow> jstring \<Rightarrow> jstring + json \<Rightarrow> jstring" where
  "thrown_not_ok fm fallback bdy =
     (case bdy of
        Inl m \<Rightarrow> m
      | Inr v \<Rightarrow>
          if v = JNull then fm DestructureOfNullish
          else (case toString_js fm (nullish_or (get_prop (js ''error'') v) (JStr fallback)) of
                  Inl m \<Rightarrow> m
                | Inr m \<Rightarrow> m))"

text \<open>\<open>const { data } = await response.json()\<close>\<close>

definition destructure_data :: "(js_fault \<Rightarrow> jstring) \<Rightarrow> jstring + json \<Rightarrow> jstring + json option" where
  "destructure_data fm bdy =
     (case bdy of
        Inl m \<Rightarrow> Inl m
      | Inr v \<Rightarrow> if v = JNull then Inl (fm DestructureOfNullish) else Inr (get_prop (js ''data'') v))"

text \<open>
  The part the three branches of the loop body share: the call, the test of
  \<open>response.ok\<close> and the data. The result is \<open>Inl\<close> the message of what is thrown, or
  \<open>Inr\<close> the data, with the world after the call.
\<close>

definition dispatch ::
  "(js_fault \<Rightarrow> jstring) \<Rightarrow> ('w \<Rightarrow> local_request \<Rightarrow> fetch_result \<times> 'w) \<Rightarrow> 'w \<Rightarrow> local_request
     \<Rightarrow> jstring \<Rightarrow> (jstring + json option) \<times> 'w"
where
  "dispatch fm fetch w req fallback =
     (case fetch w req of
        (Rejected m, w') \<Rightarrow> (Inl m, w')
      | (Responded st bdy, w') \<Rightarrow>
          if \<not> ok st then (Inl (thrown_not_ok fm fallback bdy), w')
          else (destructure_data fm bdy, w'))"

text \<open>
  The lines of the channel and the comments branch. Their templates read \<open>data.title\<close>
  and \<open>data.length\<close> inside the updater, so an error of theirs is thrown when React
  renders, not inside the \<open>try\<close>. \<open>fmt\<close> is \<open>formatNumber\<close> (\<open>Intl.NumberFormat\<close>, compact
  notation), with the message of what it throws as \<open>Inl\<close>.
\<close>

fun channel_line ::
  "(js_fault \<Rightarrow> jstring) \<Rightarrow> (json option \<Rightarrow> jstring + jstring) \<Rightarrow> json option \<Rightarrow> jstring + jstring"
where
  "channel_line fm fmt None = Inl (fm (ReadOfNullish (js ''title'')))"
| "channel_line fm fmt (Some JNull) = Inl (fm (ReadOfNullish (js ''title'')))"
| "channel_line fm fmt (Some d) =
     (case template fm (get_prop (js ''title'') d) of
        Inl m \<Rightarrow> Inl m
      | Inr title \<Rightarrow>
          (case fmt (get_prop (js ''subscriberCount'') d) of
             Inl m \<Rightarrow> Inl m
           | Inr subs \<Rightarrow>
               Inr (mark_check @ js '' Channel: '' @ title @ js '' '' @ bullet @ js '' '' @ subs @
                    js '' subs'')))"

text \<open>\<open>data.length\<close> in a template\<close>

fun data_length :: "(js_fault \<Rightarrow> jstring) \<Rightarrow> json option \<Rightarrow> jstring + jstring" where
  "data_length fm None = Inl (fm (ReadOfNullish (js ''length'')))"
| "data_length fm (Some JNull) = Inl (fm (ReadOfNullish (js ''length'')))"
| "data_length fm (Some (JArr xs)) = Inr (js (show_nat (length xs)))"
| "data_length fm (Some (JStr s)) = Inr (js (show_nat (length s)))"
| "data_length fm (Some v) = template fm (get_prop (js ''length'') v)"

definition comments_line :: "(js_fault \<Rightarrow> jstring) \<Rightarrow> WorkflowStep \<Rightarrow> json option \<Rightarrow> jstring + jstring" where
  "comments_line fm step d =
     (case data_length fm d of
        Inl m \<Rightarrow> Inl m
      | Inr n \<Rightarrow>
          Inr (mark_comments @ js '' Pulled '' @ n @ js '' comments for video '' @
               template_str (config_entry step (js ''videoId''))))"

text \<open>
  The search branch computes \<open>topThree\<close> inside the \<open>try\<close>:
  \<open>data.slice(0, 3).map((video) => video.title).join(sep)\<close>, \<open>sep\<close> being the bullet
  between two spaces. Its result is \<open>Inl\<close> the message of what it throws.
\<close>

fun video_title :: "(js_fault \<Rightarrow> jstring) \<Rightarrow> json \<Rightarrow> jstring + json option" where
  "video_title fm JNull = Inl (fm (ReadOfNullish (js ''title'')))"
| "video_title fm v = Inr (get_prop (js ''title'') v)"

fun titles :: "(js_fault \<Rightarrow> jstring) \<Rightarrow> json list \<Rightarrow> jstring + json option list" where
  "titles fm [] = Inr []"
| "titles fm (v # vs) =
     (case video_title fm v of
        Inl m \<Rightarrow> Inl m
      | Inr t \<Rightarrow> (case titles fm vs of Inl m \<Rightarrow> Inl m | Inr ts \<Rightarrow> Inr (t # ts)))"

fun join_items :: "(js_fault \<Rightarrow> jstring) \<Rightarrow> json option list \<Rightarrow> jstring + jstring list" where
  "join_items fm [] = Inr []"
| "join_items fm (t # ts) =
     (case join_item fm t of
        Inl m \<Rightarrow> Inl m
      | Inr s \<Rightarrow> (case join_items fm ts of Inl m \<Rightarrow> Inl m | Inr ss \<Rightarrow> Inr (s # ss)))"

fun topThree :: "(js_fault \<Rightarrow> jstring) \<Rightarrow> json option \<Rightarrow> jstring + jstring" where
  "topThree fm None = Inl (fm (ReadOfNullish (js ''slice'')))"
| "topThree fm (Some JNull) = Inl (fm (ReadOfNullish (js ''slice'')))"
| "topThree fm (Some (JArr xs)) =
     (case titles fm (take 3 xs) of
        Inl m \<Rightarrow> Inl m
      | Inr ts \<Rightarrow>
          (case join_items fm ts of
             Inl m \<Rightarrow> Inl m
           | Inr ss \<Rightarrow> Inr (intercalate (js '' '' @ bullet @ js '' '') ss)))"
| "topThree fm (Some (JStr s)) = Inl (fm (NotAFunction (js ''map'')))"
| "topThree fm (Some v) = Inl (fm (NotAFunction (js ''slice'')))"

definition search_line :: "WorkflowStep \<Rightarrow> jstring \<Rightarrow> jstring" where
  "search_line step three =
     mark_search @ js '' Search \"'' @ template_str (config_entry step (js ''query'')) @
     js ''\": '' @ three"

text \<open>\<open>override ?? live\<close> on a configuration entry.\<close>

fun config_or :: "jstring option \<Rightarrow> jstring \<Rightarrow> jstring" where
  "config_or None live = live"
| "config_or (Some v) live = v"

text \<open>
  The request a step sends, by its type. The credential and the three live fields are
  those of the state \<open>s\<close> in which \<open>runWorkflow\<close> was called.
\<close>

fun step_request :: "page_state \<Rightarrow> WorkflowStep \<Rightarrow> local_request" where
  "step_request s step =
     (case step_type step of
        channelStats \<Rightarrow>
          (js ''/api/youtube/channel'',
           JObj [(js ''apiKey'', JStr (apiKey s)),
                 (js ''channelId'',
                  JStr (config_or (config_entry step (js ''channelId'')) (channelId s)))])
      | searchVideos \<Rightarrow>
          (js ''/api/youtube/search'',
           JObj [(js ''apiKey'', JStr (apiKey s)),
                 (js ''query'', JStr (config_or (config_entry step (js ''query'')) (searchQuery s)))])
      | fetchComments \<Rightarrow>
          (js ''/api/youtube/comments'',
           JObj [(js ''apiKey'', JStr (apiKey s)),
                 (js ''videoId'',
                  JStr (config_or (config_entry step (js ''videoId'')) (commentsVideoId s)))]))"

text \<open>
  The body of the \<open>try\<close> for one step: \<open>Inl\<close> the message of what it throws, which the
  \<open>catch\<close> receives, or \<open>Inr\<close> the argument of its \<open>setRunLog\<close>.
\<close>

definition run_step ::
  "(js_fault \<Rightarrow> jstring) \<Rightarrow> (json option \<Rightarrow> jstring + jstring)
     \<Rightarrow> ('w \<Rightarrow> local_request \<Rightarrow> fetch_result \<times> 'w)
     \<Rightarrow> page_state \<Rightarrow> 'w \<Rightarrow> WorkflowStep \<Rightarrow> (jstring + (jstring + jstring)) \<times> 'w"
where
  "run_step fm fmt fetch s w step =
     (case step_type step of
        channelStats \<Rightarrow>
          (case dispatch fm fetch w (step_request s step) (js ''Channel stats step failed.'') of
             (Inl m, w') \<Rightarrow> (Inl m, w')
           | (Inr d, w') \<Rightarrow> (Inr (channel_line fm fmt d), w'))
      | searchVideos \<Rightarrow>
          (case dispatch fm fetch w (step_request s step) (js ''Search step failed.'') of
             (Inl m, w') \<Rightarrow> (Inl m, w')
           | (Inr d, w') \<Rightarrow>
               (case topThree fm d of
                  Inl m \<Rightarrow> (Inl m, w')
                | Inr three \<Rightarrow> (Inr (Inr (search_line step three)), w')))
      | fetchComments \<Rightarrow>
          (case dispatch fm fetch w (step_request s step) (js ''Comments step failed.'') of
             (Inl m, w') \<Rightarrow> (Inl m, w')
           | (Inr d, w') \<Rightarrow> (Inr (comments_line fm step d), w')))"

subsection \<open>runWorkflow\<close>

text \<open>
  The loop over \<open>workflow.steps\<close>, on the page, the world and the requests sent so far.
  A step that throws nothing hands its line to \<open>setRunLog\<close> and the loop goes on; the
  \<open>catch\<close> logs the failure and \<open>break\<close>s.
\<close>

fun run_steps ::
  "(js_fault \<Rightarrow> jstring) \<Rightarrow> (json option \<Rightarrow> jstring + jstring)
     \<Rightarrow> ('w \<Rightarrow> local_request \<Rightarrow> fetch_result \<times> 'w)
     \<Rightarrow> page_state \<Rightarrow> AutomationWorkflow \<Rightarrow> page \<times> 'w \<times> local_request list \<Rightarrow> WorkflowStep list
     \<Rightarrow> page \<times> 'w \<times> local_request list"
where
  "run_steps fm fmt fetch s workflow (pg, w, sent) [] = (pg, w, sent)"
| "run_steps fm fmt fetch s workflow (pg, w, sent) (step # rest) =
     (case run_step fm fmt fetch s w step of
        (Inr u, w') \<Rightarrow>
          run_steps fm fmt fetch s workflow
            (setRunLog u pg, w', sent @ [step_request s step]) rest
      | (Inl msg, w') \<Rightarrow>
          (setRunLog (Inr (mark_cross @ js '' '' @ name workflow @ js '': '' @ msg)) pg,
           w', sent @ [step_request s step]))"

text \<open>
  \<open>runWorkflow\<close> is called on the mounted page in the state \<open>s\<close> and returns the page,
  the world and the requests it has sent. Its parameter has the type
  \<open>AutomationWorkflow\<close>, so the first guard \<open>if (!workflow)\<close> never holds.
\<close>

definition runWorkflow ::
  "(js_fault \<Rightarrow> jstring) \<Rightarrow> (json option \<Rightarrow> jstring + jstring)
     \<Rightarrow> ('w \<Rightarrow> local_request \<Rightarrow> fetch_result \<times> 'w)
     \<Rightarrow> page_state \<Rightarrow> 'w \<Rightarrow> AutomationWorkflow \<Rightarrow> page \<times> 'w \<times> local_request list"
where
  "runWorkflow fm fmt fetch s w workflow =
     (if apiKey s = [] then
        (setRunLog (Inr (mark_warning @ js '' Add an API key before running workflows.''))
           (Mounted s),
         w, [])
      else
        (let pg1 = setIsRunningWorkflow True (Mounted s);
             pg2 = setRunLog (Inr (mark_running @ js '' Running workflow \"'' @ name workflow @
                                   js ''\" ('' @ scheduleLabel (schedule workflow) @ js '')'')) pg1
         in case run_steps fm fmt fetch s workflow (pg2, w, []) (steps workflow) of
              (pg3, w', sent) \<Rightarrow> (setIsRunningWorkflow False pg3, w', sent)))"

text \<open>
  \<open>completes pre\<close> is the world after the steps \<open>pre\<close>, run in order from the world
  \<open>w\<close>, when none of them throws inside its \<open>try\<close>, and \<open>None\<close> otherwise: the condition
  under which the loop reaches the step that follows them.
\<close>

fun completes ::
  "(js_fault \<Rightarrow> jstring) \<Rightarrow> (json option \<Rightarrow> jstring + jstring)
     \<Rightarrow> ('w \<Rightarrow> local_request \<Rightarrow> fetch_result \<times> 'w)
     \<Rightarrow> page_state \<Rightarrow> 'w \<Rightarrow> WorkflowStep list \<Rightarrow> 'w option"
where
  "completes fm fmt fetch s w [] = Some w"
| "completes fm fmt fetch s w (step # rest) =
     (case run_step fm fmt fetch s w step of
        (Inr u, w') \<Rightarrow> completes fm fmt fetch s w' rest
      | (Inl msg, w') \<Rightarrow> None)"
section \<open>JSON text\<close>

subsection \<open>JSON.stringify\<close>

text \<open>
  \<open>JSON.stringify\<close> without indentation. In a string, the quotation mark, the reverse
  solidus and the control characters are escaped, by their short forms where there is
  one and else as \<open>\u\<close> and four lower-case hexadecimal digits; a lone surrogate is
  escaped likewise, a surrogate pair is kept. The members of an object come in the
  order of the list.
\<close>

definition hex_digit :: "nat \<Rightarrow> 16 word" where
  "hex_digit d = of_char (''0123456789abcdef'' ! d)"

definition escape_u :: "16 word \<Rightarrow> jstring" where
  "escape_u c =
     [0x5C, 0x75, hex_digit (unat c div 4096), hex_digit (unat c div 256 mod 16),
      hex_digit (unat c div 16 mod 16), hex_digit (unat c mod 16)]"

definition escape_unit :: "16 word \<Rightarrow> jstring" where
  "escape_unit c =
     (if c = 0x22 then [0x5C, 0x22]
      else if c = 0x5C then [0x5C, 0x5C]
      else if c = 0x08 then [0x5C, 0x62]
      else if c = 0x0C then [0x5C, 0x66]
      else if c = 0x0A then [0x5C, 0x6E]
      else if c = 0x0D then [0x5C, 0x72]
      else if c = 0x09 then [0x5C, 0x74]
      else if c < 0x20 \<or> is_high c \<or> is_low c then escape_u c
      else [c])"

fun quote_units :: "jstring \<Rightarrow> jstring" where
  "quote_units [] = []"
| "quote_units [c] = escape_unit c"
| "quote_units (c # d # cs) =
     (if is_high c \<and> is_low d then c # d # quote_units cs
      else escape_unit c @ quote_units (d # cs))"

definition QuoteJSONString :: "jstring \<Rightarrow> jstring" where
  "QuoteJSONString s = 0x22 # quote_units s @ [0x22]"

fun JSON_stringify :: "json \<Rightarrow> jstring" where
  "JSON_stringify JNull = js ''null''"
| "JSON_stringify (JBool b) = (if b then js ''true'' else js ''false'')"
| "JSON_stringify (JNum n) = js (show_int n)"
| "JSON_stringify (JStr s) = QuoteJSONString s"
| "JSON_stringify (JArr xs) = 0x5B # intercalate [0x2C] (map JSON_stringify xs) @ [0x5D]"
| "JSON_stringify (JObj kvs) =
     0x7B # intercalate [0x2C]
              (map (\<lambda>kv. QuoteJSONString (fst kv) @ 0x3A # JSON_stringify (snd kv)) kvs) @ [0x7D]"

subsection \<open>JSON.parse\<close>

text \<open>
  \<open>JSON.parse\<close>, by recursive descent: white space between the tokens, the literals,
  strings with their escapes, arrays and objects. A number is read when it is an
  integer; a number with a fraction or an exponent has no value in \<open>json\<close> and is
  refused here. The functions for values, elements and members take a bound on the
  number of their calls; \<open>JSON_parse\<close> gives the length of the text, which no text
  exhausts, each call reading a character at least. The result is \<open>None\<close> where
  \<open>JSON.parse\<close> throws a \<open>SyntaxError\<close>.
\<close>

fun skip_ws :: "jstring \<Rightarrow> jstring" where
  "skip_ws [] = []"
| "skip_ws (c # cs) =
     (if c = 0x20 \<or> c = 0x09 \<or> c = 0x0A \<or> c = 0x0D then skip_ws cs else c # cs)"

definition hex_value :: "16 word \<Rightarrow> nat option" where
  "hex_value c =
     (if 0x30 \<le> c \<and> c \<le> 0x39 then Some (unat c - 0x30)
      else if 0x61 \<le> c \<and> c \<le> 0x66 then Some (unat c - 0x61 + 10)
      else if 0x41 \<le> c \<and> c \<le> 0x46 then Some (unat c - 0x41 + 10)
      else None)"

definition unescape :: "16 word \<Rightarrow> 16 word option" where
  "unescape e =
     (if e = 0x22 then Some 0x22
      else if e = 0x5C then Some 0x5C
      else if e = 0x2F then Some 0x2F
      else if e = 0x62 then Some 0x08
      else if e = 0x66 then Some 0x0C
      else if e = 0x6E then Some 0x0A
      else if e = 0x72 then Some 0x0D
      else if e = 0x74 then Some 0x09
      else None)"

text \<open>The four hexadecimal digits after \<open>\u\<close>: the code unit and the rest of the text.\<close>

fun unicode_escape :: "jstring \<Rightarrow> (16 word \<times> jstring) option" where
  "unicode_escape (h1 # h2 # h3 # h4 # r) =
     (case (hex_value h1, hex_value h2, hex_value h3, hex_value h4) of
        (Some a, Some b, Some c, Some d) \<Rightarrow> Some (of_nat (((a * 16 + b) * 16 + c) * 16 + d), r)
      | _ \<Rightarrow> None)"
| "unicode_escape _ = None"

text \<open>
  The characters of a string after its opening quotation mark, up to the closing one:
  the string and the rest of the text. The bound is for the calls; the length of the
  text is enough.
\<close>

fun parse_chars :: "nat \<Rightarrow> jstring \<Rightarrow> (jstring \<times> jstring) option" where
  "parse_chars 0 s = None"
| "parse_chars (Suc n) [] = None"
| "parse_chars (Suc n) (c # cs) =
     (if c = 0x22 then Some ([], cs)
      else if c = 0x5C then
        (case cs of
           [] \<Rightarrow> None
         | e # es \<Rightarrow>
             if e = 0x75 then
               (case unicode_escape es of
                  None \<Rightarrow> None
                | Some (u, r) \<Rightarrow>
                    (case parse_chars n r of None \<Rightarrow> None | Some (s, r') \<Rightarrow> Some (u # s, r')))
             else
               (case unescape e of
                  None \<Rightarrow> None
                | Some u \<Rightarrow>
                    (case parse_chars n es of None \<Rightarrow> None | Some (s, r') \<Rightarrow> Some (u # s, r'))))
      else if c < 0x20 then None
      else (case parse_chars n cs of None \<Rightarrow> None | Some (s, r) \<Rightarrow> Some (c # s, r)))"

definition is_digit :: "16 word \<Rightarrow> bool" where
  "is_digit c \<longleftrightarrow> 0x30 \<le> c \<and> c \<le> 0x39"

fun read_digits :: "nat \<Rightarrow> jstring \<Rightarrow> nat \<times> jstring" where
  "read_digits acc [] = (acc, [])"
| "read_digits acc (c # cs) =
     (if is_digit c then read_digits (acc * 10 + (unat c - 0x30)) cs else (acc, c # cs))"

text \<open>The integer part: a single zero, or a digit from 1 to 9 and the digits after it.\<close>

fun parse_int :: "jstring \<Rightarrow> (nat \<times> jstring) option" where
  "parse_int [] = None"
| "parse_int (c # cs) =
     (if c = 0x30 then Some (0, cs)
      else if is_digit c then Some (read_digits (unat c - 0x30) cs)
      else None)"

definition after_int :: "int \<Rightarrow> jstring \<Rightarrow> (json \<times> jstring) option" where
  "after_int i r =
     (case r of
        [] \<Rightarrow> Some (JNum i, [])
      | c # cs \<Rightarrow> if c = 0x2E \<or> c = 0x65 \<or> c = 0x45 then None else Some (JNum i, r))"

definition parse_number :: "jstring \<Rightarrow> (json \<times> jstring) option" where
  "parse_number s =
     (case s of
        [] \<Rightarrow> None
      | c # cs \<Rightarrow>
          if c = 0x2D then
            (case parse_int cs of None \<Rightarrow> None | Some (n, r) \<Rightarrow> after_int (- int n) r)
          else
            (case parse_int s of None \<Rightarrow> None | Some (n, r) \<Rightarrow> after_int (int n) r))"

definition literal :: "jstring \<Rightarrow> json \<Rightarrow> jstring \<Rightarrow> (json \<times> jstring) option" where
  "literal word v s =
     (if take (length word) s = word then Some (v, drop (length word) s) else None)"

fun parse_value :: "nat \<Rightarrow> jstring \<Rightarrow> (json \<times> jstring) option"
  and parse_elements :: "nat \<Rightarrow> jstring \<Rightarrow> (json list \<times> jstring) option"
  and parse_members :: "nat \<Rightarrow> jstring \<Rightarrow> ((jstring \<times> json) list \<times> jstring) option"
where
  "parse_value 0 s = None"
| "parse_value (Suc n) s =
     (case skip_ws s of
        [] \<Rightarrow> None
      | c # cs \<Rightarrow>
          if c = 0x22 then
            (case parse_chars (length cs) cs of None \<Rightarrow> None | Some (str, r) \<Rightarrow> Some (JStr str, r))
          else if c = 0x5B then
            (case skip_ws cs of
               [] \<Rightarrow> None
             | d # ds \<Rightarrow>
                 if d = 0x5D then Some (JArr [], ds)
                 else (case parse_elements n cs of
                         None \<Rightarrow> None
                       | Some (xs, r) \<Rightarrow> Some (JArr xs, r)))
          else if c = 0x7B then
            (case skip_ws cs of
               [] \<Rightarrow> None
             | d # ds \<Rightarrow>
                 if d = 0x7D then Some (JObj [], ds)
                 else (case parse_members n cs of
                         None \<Rightarrow> None
                       | Some (kvs, r) \<Rightarrow> Some (JObj kvs, r)))
          else if c = 0x6E then literal (js ''null'') JNull (c # cs)
          else if c = 0x74 then literal (js ''true'') (JBool True) (c # cs)
          else if c = 0x66 then literal (js ''false'') (JBool False) (c # cs)
          else parse_number (c # cs))"
| "parse_elements 0 s = None"
| "parse_elements (Suc n) s =
     (case parse_value n s of
        None \<Rightarrow> None
      | Some (x, r) \<Rightarrow>
          (case skip_ws r of
             [] \<Rightarrow> None
           | c # cs \<Rightarrow>
               if c = 0x2C then
                 (case parse_elements n cs of None \<Rightarrow> None | Some (xs, r') \<Rightarrow> Some (x # xs, r'))
               else if c = 0x5D then Some ([x], cs)
               else None))"
| "parse_members 0 s = None"
| "parse_members (Suc n) s =
     (case skip_ws s of
        [] \<Rightarrow> None
      | q # cs \<Rightarrow>
          if q \<noteq> 0x22 then None
          else
            (case parse_chars (length cs) cs of
               None \<Rightarrow> None
             | Some (k, r) \<Rightarrow>
                 (case skip_ws r of
                    [] \<Rightarrow> None
                  | colon # r1 \<Rightarrow>
                      if colon \<noteq> 0x3A then None
                      else
                        (case parse_value n r1 of
                           None \<Rightarrow> None
                         | Some (v, r2) \<Rightarrow>
                             (case skip_ws r2 of
                                [] \<Rightarrow> None
                              | c # r3 \<Rightarrow>
                                  if c = 0x2C then
                                    (case parse_members n r3 of
                                       None \<Rightarrow> None
                                     | Some (kvs, r') \<Rightarrow> Some ((k, v) # kvs, r'))
                                  else if c = 0x7D then Some ([(k, v)], r3)
                                  else None)))))"

definition JSON_parse :: "jstring \<Rightarrow> json option" where
  "JSON_parse raw =
     (case parse_value (length raw) raw of
        None \<Rightarrow> None
      | Some (v, r) \<Rightarrow> if skip_ws r = [] then Some v else None)"
section \<open>Persisted client storage\<close>

text \<open>
  The browser as the storage functions see it: whether \<open>window\<close> is defined, whether
  the access to \<open>window.localStorage\<close> throws (storage denied), which writes \<open>setItem\<close>
  accepts (it throws when the quota is exceeded), and the stored items.
\<close>

record browser =
  has_window :: bool
  storage_denied :: bool
  accepts :: "jstring \<Rightarrow> jstring \<Rightarrow> bool"
  items :: "jstring \<rightharpoonup> jstring"

definition STORAGE_KEYS_apiKey :: jstring where
  "STORAGE_KEYS_apiKey = js ''youtube-automation:api-key''"

definition STORAGE_KEYS_workflows :: jstring where
  "STORAGE_KEYS_workflows = js ''youtube-automation:workflows''"

definition STORAGE_KEYS_channelId :: jstring where
  "STORAGE_KEYS_channelId = js ''youtube-automation:channel-id''"

subsection \<open>The values of the page as JavaScript values\<close>

text \<open>
  What \<open>JSON.stringify\<close> receives is the JavaScript value of a string or of the list of
  workflows: the objects with their members in the order in which the page builds them
  (\<open>id\<close>, \<open>name\<close>, \<open>schedule\<close>, \<open>steps\<close>; \<open>id\<close>, \<open>type\<close>, \<open>config\<close>).
\<close>

fun type_name :: "WorkflowStepType \<Rightarrow> jstring" where
  "type_name channelStats = js ''channelStats''"
| "type_name searchVideos = js ''searchVideos''"
| "type_name fetchComments = js ''fetchComments''"

fun schedule_name :: "WorkflowSchedule \<Rightarrow> jstring" where
  "schedule_name manual = js ''manual''"
| "schedule_name daily = js ''daily''"
| "schedule_name hourly = js ''hourly''"

definition json_of_step :: "WorkflowStep \<Rightarrow> json" where
  "json_of_step step =
     JObj [(js ''id'', JStr (step_id step)),
           (js ''type'', JStr (type_name (step_type step))),
           (js ''config'', JObj (map (\<lambda>kv. (fst kv, JStr (snd kv))) (config step)))]"

definition json_of_workflow :: "AutomationWorkflow \<Rightarrow> json" where
  "json_of_workflow flow =
     JObj [(js ''id'', JStr (wf_id flow)),
           (js ''name'', JStr (name flow)),
           (js ''schedule'', JStr (schedule_name (schedule flow))),
           (js ''steps'', JArr (map json_of_step (steps flow)))]"

definition json_of_workflows :: "AutomationWorkflow list \<Rightarrow> json" where
  "json_of_workflows ws = JArr (map json_of_workflow ws)"

text \<open>
  \<open>JSON.parse(raw) as T\<close> takes the parsed value at the type \<open>T\<close> without a check. The
  state of the page is typed, so the parsed value is read at its type: a string, or a
  list of workflows. A stored value of another shape has no counterpart in the typed
  state; it is read as the empty string, the empty list, or the last tag.
\<close>

fun string_of_json :: "json \<Rightarrow> jstring" where
  "string_of_json (JStr s) = s"
| "string_of_json _ = []"

fun list_of_json :: "json \<Rightarrow> json list" where
  "list_of_json (JArr xs) = xs"
| "list_of_json _ = []"

fun entries_of_json :: "json \<Rightarrow> (jstring \<times> jstring) list" where
  "entries_of_json (JObj kvs) = map (\<lambda>kv. (fst kv, string_of_json (snd kv))) kvs"
| "entries_of_json _ = []"

definition member_of :: "jstring \<Rightarrow> json \<Rightarrow> json" where
  "member_of k v = nullish_or (get_prop k v) JNull"

definition type_of_json :: "json \<Rightarrow> WorkflowStepType" where
  "type_of_json v =
     (if v = JStr (js ''channelStats'') then channelStats
      else if v = JStr (js ''searchVideos'') then searchVideos
      else fetchComments)"

definition schedule_of_json :: "json \<Rightarrow> WorkflowSchedule" where
  "schedule_of_json v =
     (if v = JStr (js ''manual'') then manual
      else if v = JStr (js ''daily'') then daily
      else hourly)"

definition step_of_json :: "json \<Rightarrow> WorkflowStep" where
  "step_of_json v =
     \<lparr>step_id = string_of_json (member_of (js ''id'') v),
      step_type = type_of_json (member_of (js ''type'') v),
      config = entries_of_json (member_of (js ''config'') v)\<rparr>"

definition workflow_of_json :: "json \<Rightarrow> AutomationWorkflow" where
  "workflow_of_json v =
     \<lparr>wf_id = string_of_json (member_of (js ''id'') v),
      name = string_of_json (member_of (js ''name'') v),
      schedule = schedule_of_json (member_of (js ''schedule'') v),
      steps = map step_of_json (list_of_json (member_of (js ''steps'') v))\<rparr>"

definition workflows_of_json :: "json \<Rightarrow> AutomationWorkflow list" where
  "workflows_of_json v = map workflow_of_json (list_of_json v)"

subsection \<open>getLocalStorage and setLocalStorage\<close>

text \<open>
  The two functions are generic in the type \<open>T\<close> of the slot: \<open>as_T\<close> reads the parsed
  value at that type, and \<open>value_of\<close> is the JavaScript value that is written.
\<close>

definition getLocalStorage :: "(json \<Rightarrow> 'a) \<Rightarrow> browser \<Rightarrow> jstring \<Rightarrow> 'a \<Rightarrow> 'a" where
  "getLocalStorage as_T b key fallback =
     (if \<not> has_window b then fallback
      else if storage_denied b then fallback
      else (case items b key of
              None \<Rightarrow> fallback
            | Some raw \<Rightarrow>
                if raw = [] then fallback
                else (case JSON_parse raw of None \<Rightarrow> fallback | Some v \<Rightarrow> as_T v)))"

definition setLocalStorage :: "('a \<Rightarrow> json) \<Rightarrow> browser \<Rightarrow> jstring \<Rightarrow> 'a \<Rightarrow> browser" where
  "setLocalStorage value_of b key v =
     (if \<not> has_window b then b
      else if storage_denied b then b
      else if \<not> accepts b key (JSON_stringify (value_of v)) then b
      else b\<lparr>items := (items b)(key \<mapsto> JSON_stringify (value_of v))\<rparr>)"

subsection \<open>The effects of the page\<close>

text \<open>
  The effect that runs once at startup, and the three effects that run when the
  credential, the channel identifier or the workflows change. Each effect runs once
  per change, as in a production build.
\<close>

definition load_effect :: "browser \<Rightarrow> page_state \<Rightarrow> page_state" where
  "load_effect b s =
     (let storedApiKey = getLocalStorage string_of_json b STORAGE_KEYS_apiKey [];
          storedChannelId = getLocalStorage string_of_json b STORAGE_KEYS_channelId [];
          storedWorkflows = getLocalStorage workflows_of_json b STORAGE_KEYS_workflows [];
          s1 = s\<lparr>apiKey := storedApiKey, channelId := storedChannelId, workflows := storedWorkflows\<rparr>
      in case storedWorkflows of
           [] \<Rightarrow> s1
         | first # _ \<Rightarrow> s1\<lparr>selectedWorkflowId := Some (wf_id first)\<rparr>)"

definition save_apiKey_effect :: "browser \<Rightarrow> page_state \<Rightarrow> browser" where
  "save_apiKey_effect b s = setLocalStorage JStr b STORAGE_KEYS_apiKey (apiKey s)"

definition save_channelId_effect :: "browser \<Rightarrow> page_state \<Rightarrow> browser" where
  "save_channelId_effect b s = setLocalStorage JStr b STORAGE_KEYS_channelId (channelId s)"

definition save_workflows_effect :: "browser \<Rightarrow> page_state \<Rightarrow> browser" where
  "save_workflows_effect b s =
     setLocalStorage json_of_workflows b STORAGE_KEYS_workflows (workflows s)"

text \<open>
  The state of the first render, and the startup of the page as its effects make it.
  In the first commit the startup effect reads the three slots, and the three saving
  effects, which see the state of the first render, write it; the state that was read
  is set after that. In the next commit the saving effects run again where their
  dependency has changed: the two strings when they differ from the first render's,
  the list of workflows always (what was read is a new array). The result is the state
  and the browser after these two commits.
\<close>

definition initial_state :: page_state where
  "initial_state =
     \<lparr>apiKey = [], channelId = [], searchQuery = [], commentsVideoId = [], workflows = [],
      selectedWorkflowId = None, runLog = [], isRunningWorkflow = False\<rparr>"

definition startup :: "browser \<Rightarrow> page_state \<times> browser" where
  "startup b =
     (let s1 = load_effect b initial_state;
          b1 = save_apiKey_effect b initial_state;
          b2 = save_channelId_effect b1 initial_state;
          b3 = save_workflows_effect b2 initial_state;
          b4 = (if apiKey s1 \<noteq> apiKey initial_state then save_apiKey_effect b3 s1 else b3);
          b5 = (if channelId s1 \<noteq> channelId initial_state then save_channelId_effect b4 s1 else b4);
          b6 = save_workflows_effect b5 s1
      in (s1, b6))"
section \<open>Concrete environments\<close>

text \<open>
  Instances of the parameters, for evaluating the handlers and the runner on concrete
  inputs.

  \<^item> \<open>fault_text\<close> gives a text to every engine fault.
  \<^item> \<open>number_of\<close> is \<open>Number\<close> as the reply shows it, on integers, \<open>null\<close>, booleans, the
    empty string and strings of decimal digits; what \<open>Number\<close> makes of other strings,
    of arrays and of objects is not modelled, and they are given \<open>null\<close>, the JSON of
    \<open>NaN\<close>.
  \<^item> \<open>format_number\<close> is \<open>formatNumber\<close>, the compact notation of \<open>en-US\<close>, on \<open>undefined\<close>,
    \<open>null\<close>, booleans and integers: below a thousand the number in full, from there the
    thousands, millions, billions or trillions, rounded half away from zero to one
    decimal when they have one integer digit and to an integer otherwise (\<open>1K\<close>, \<open>1.2K\<close>,
    \<open>12K\<close>, \<open>1M\<close>), grouped by three from ten thousand trillions. What it makes of
    strings, arrays and objects is not modelled, and they are given \<open>NaN\<close>.
  \<^item> \<open>answering\<close> is an outbound \<open>fetch\<close> that gives one fixed answer, \<open>scripted\<close> a page
    \<open>fetch\<close> that plays a script of answers in order.
  \<^item> Sample bodies, responses, steps and workflows, and a browser with empty storage that
    accepts every write.
\<close>

definition fault_text :: "js_fault \<Rightarrow> jstring" where
  "fault_text f = js ''TypeError''"

definition number_of :: "json \<Rightarrow> json" where
  "number_of v =
     (case v of
        JNum n \<Rightarrow> JNum n
      | JNull \<Rightarrow> JNum 0
      | JBool b \<Rightarrow> JNum (if b then 1 else 0)
      | JStr s \<Rightarrow> if list_all is_digit s then JNum (int (fst (read_digits 0 s))) else JNull
      | _ \<Rightarrow> JNull)"

fun group_rev :: "string \<Rightarrow> string" where
  "group_rev (a # b # c # d # ds) = a # b # c # CHR '','' # group_rev (d # ds)"
| "group_rev ds = ds"

definition grouped :: "nat \<Rightarrow> string" where
  "grouped n = (let ds = show_nat n in if length ds < 5 then ds else rev (group_rev (rev ds)))"

definition suffix_of :: "nat \<Rightarrow> string" where
  "suffix_of e = (if e = 3 then ''K'' else if e = 6 then ''M'' else if e = 9 then ''B'' else ''T'')"

definition compact_at :: "nat \<Rightarrow> nat \<Rightarrow> string" where
  "compact_at e n =
     (if n < 10 * 10 ^ e
      then (let r = (20 * n + 10 ^ e) div (2 * 10 ^ e)
            in if r = 100 then ''10'' @ suffix_of e
               else if r mod 10 = 0 then show_nat (r div 10) @ suffix_of e
               else show_nat (r div 10) @ ''.'' @ show_nat (r mod 10) @ suffix_of e)
      else (let r = (2 * n + 10 ^ e) div (2 * 10 ^ e)
            in if r = 1000 \<and> e < 12 then ''1'' @ suffix_of (e + 3)
               else grouped r @ suffix_of e))"

definition compact :: "nat \<Rightarrow> string" where
  "compact n =
     (if n < 1000 then show_nat n
      else compact_at (if n < 10 ^ 6 then 3 else if n < 10 ^ 9 then 6
                       else if n < 10 ^ 12 then 9 else 12) n)"

definition format_number :: "json option \<Rightarrow> jstring + jstring" where
  "format_number v =
     (case v of
        Some (JNum n) \<Rightarrow>
          Inr (js (if n < 0 then CHR ''-'' # compact (nat (- n)) else compact (nat n)))
      | Some JNull \<Rightarrow> Inr (js ''0'')
      | Some (JBool b) \<Rightarrow> Inr (js (if b then ''1'' else ''0''))
      | _ \<Rightarrow> Inr (js ''NaN''))"

definition answering :: "fetch_result \<Rightarrow> ext_request \<Rightarrow> fetch_result" where
  "answering r u = r"

fun scripted :: "fetch_result list \<Rightarrow> local_request \<Rightarrow> fetch_result \<times> fetch_result list" where
  "scripted [] req = (Rejected (js ''fetch failed''), [])"
| "scripted (r # rs) req = (r, rs)"

definition short_key_body :: json where
  "short_key_body =
     JObj [(js ''apiKey'', JStr (js ''short'')), (js ''query'', JStr (js ''c'')),
           (js ''videoId'', JStr (js ''ab'')), (js ''channelId'', JStr (js ''UC''))]"

definition valid_body :: json where
  "valid_body =
     JObj [(js ''apiKey'', JStr (js ''AIzaSyExampleKey'')), (js ''query'', JStr (js ''cats'')),
           (js ''videoId'', JStr (js ''dQw4w9WgXcQ'')), (js ''channelId'', JStr (js ''UC1234''))]"

definition bare_item :: json where
  "bare_item = JObj [(js ''snippet'', JObj [(js ''topLevelComment'', JObj [])])]"

definition no_comment_item :: json where
  "no_comment_item = JObj [(js ''snippet'', JObj [])]"

definition ok_response :: "json list \<Rightarrow> fetch_result" where
  "ok_response its = Responded 200 (Inr (JObj [(js ''items'', JArr its)]))"

definition example_state :: page_state where
  "example_state =
     \<lparr>apiKey = js ''AIzaSyExampleKey'', channelId = js ''UC1234'', searchQuery = js ''foo'',
      commentsVideoId = js ''dQw4w9WgXcQ'', workflows = [], selectedWorkflowId = None,
      runLog = [], isRunningWorkflow = False\<rparr>"

definition step_of :: "WorkflowStepType \<Rightarrow> (jstring \<times> jstring) list \<Rightarrow> WorkflowStep" where
  "step_of t entries = \<lparr>step_id = js ''step'', step_type = t, config = entries\<rparr>"

definition workflow_of :: "WorkflowStep list \<Rightarrow> AutomationWorkflow" where
  "workflow_of ss = \<lparr>wf_id = js ''wf'', name = js ''Research'', schedule = daily, steps = ss\<rparr>"

definition channel_answer :: fetch_result where
  "channel_answer =
     Responded 200 (Inr (JObj [(js ''data'',
       JObj [(js ''title'', JStr (js ''Chan'')), (js ''subscriberCount'', JNum 5)])]))"

definition search_answer :: fetch_result where
  "search_answer =
     Responded 200 (Inr (JObj [(js ''data'', JArr [JObj [(js ''title'', JStr (js ''Video''))]])]))"

definition rejected_answer :: fetch_result where
  "rejected_answer =
     Responded 400 (Inr (JObj [(js ''error'', JStr (js ''Search query is required''))]))"

definition example_browser :: browser where
  "example_browser =
     \<lparr>has_window = True, storage_denied = False, accepts = (\<lambda>k v. True), items = Map.empty\<rparr>"


text \<open>
  Two workflows, the first with a step for each type, an override that holds a quotation
  mark and a line feed, and an override that is empty; and the text that
  \<open>JSON.stringify\<close> makes of them.
\<close>

definition example_workflows :: "AutomationWorkflow list" where
  "example_workflows =
     [\<lparr>wf_id = js ''wf-1'', name = js ''Research'', schedule = daily,
       steps = [step_of channelStats [(js ''channelId'', js ''UC1234'')],
                step_of searchVideos [(js ''query'', 0x22 # js ''cats'' @ [0x22, 0x0A])],
                step_of fetchComments [(js ''videoId'', [])]]\<rparr>,
      \<lparr>wf_id = js ''wf-2'', name = js ''Idle'', schedule = manual, steps = []\<rparr>]"

definition example_text :: jstring where
  "example_text =
     js ''[{\"id\":\"wf-1\",\"name\":\"Research\",\"schedule\":\"daily\",\"steps\":['' @
     js ''{\"id\":\"step\",\"type\":\"channelStats\",\"config\":{\"channelId\":\"UC1234\"}},'' @
     js ''{\"id\":\"step\",\"type\":\"searchVideos\",\"config\":{\"query\":\"'' @
     [0x5C, 0x22] @ js ''cats'' @ [0x5C, 0x22, 0x5C, 0x6E] @ js ''\"}},'' @
     js ''{\"id\":\"step\",\"type\":\"fetchComments\",\"config\":{\"videoId\":\"\"}}]},'' @
     js ''{\"id\":\"wf-2\",\"name\":\"Idle\",\"schedule\":\"manual\",\"steps\":[]}]''"
section \<open>Facts about strings\<close>

lemma unat_of_char: "unat (of_char c :: 16 word) = of_char c"
proof -
  have "(of_char c :: nat) < 256" by (rule nat_of_char_less_256)
  also have "(256 :: nat) < 2 ^ 16" by simp
  finally have "(of_char c :: nat) < 2 ^ 16" .
  then have "unat (of_nat (of_char c) :: 16 word) = of_char c"
    by (simp add: unat_of_nat take_bit_nat_eq_self)
  then show ?thesis by (simp add: of_nat_of_char)
qed

lemma of_char_word_eq_iff: "(of_char c :: 16 word) = of_char d \<longleftrightarrow> c = d"
proof
  assume "(of_char c :: 16 word) = of_char d"
  then have "unat (of_char c :: 16 word) = unat (of_char d :: 16 word)" by simp
  then have "(of_char c :: nat) = of_char d" by (simp only: unat_of_char)
  then show "c = d" by (simp only: of_char_eq_iff)
qed simp

lemma js_eq_iff [simp]: "js a = js b \<longleftrightarrow> a = b"
  unfolding js_def by (rule inj_map_eq_map) (simp add: inj_on_def of_char_word_eq_iff)

lemma length_js [simp]: "length (js s) = length s"
  by (simp add: js_def)

lemma js_append: "js (a @ b) = js a @ js b"
  by (simp add: js_def)

lemma js_eq_Nil_iff [simp]: "js s = [] \<longleftrightarrow> s = []"
  by (simp add: js_def)

lemma Nil_eq_js_iff [simp]: "[] = js s \<longleftrightarrow> s = []"
  by (auto simp add: js_def)

section \<open>Validation\<close>

lemma z_string_min_Inr_iff:
  "z_string_min n msg k v = Inr s \<longleftrightarrow> v = Some (JStr s) \<and> n \<le> length s"
  by (cases "(n, msg, k, v)" rule: z_string_min.cases) auto

lemma z_string_min_Inl:
  assumes "z_string_min n msg k v = Inl is" and "msg \<noteq> []"
  shows "\<exists>i. is = [i] \<and> message i \<noteq> []"
  using assms by (cases "(n, msg, k, v)" rule: z_string_min.cases) (auto split: if_splits)

lemma z_string_min_short:
  "length s < n \<Longrightarrow> z_string_min n msg k (Some (JStr s)) = Inl [\<lparr>path = [k], message = msg\<rparr>]"
  by simp

lemma z_object2_accept:
  assumes "get_prop k1 p = Some (JStr a)" and "n1 \<le> length a"
    and "get_prop k2 p = Some (JStr b)" and "n2 \<le> length b"
  shows "z_object2 n1 m1 k1 n2 m2 k2 p = Inr (a, b)"
  using assms by (cases p) simp_all

lemma z_object2_reject:
  assumes "m1 \<noteq> []" and "m2 \<noteq> []"
    and "(\<nexists>a. get_prop k1 p = Some (JStr a) \<and> n1 \<le> length a) \<or>
         (\<nexists>b. get_prop k2 p = Some (JStr b) \<and> n2 \<le> length b)"
  shows "\<exists>i is. z_object2 n1 m1 k1 n2 m2 k2 p = Inl (ZodError (i # is)) \<and> message i \<noteq> []"
proof (cases p)
  case (JObj kvs)
  let ?r1 = "z_string_min n1 m1 k1 (get_prop k1 p)"
  let ?r2 = "z_string_min n2 m2 k2 (get_prop k2 p)"
  show ?thesis
  proof (cases ?r1)
    case (Inl is1)
    with z_string_min_Inl [OF Inl assms(1)] obtain i where i: "is1 = [i]" "message i \<noteq> []"
      by blast
    with Inl JObj show ?thesis by (simp add: Let_def)
  next
    case (Inr a)
    then have a: "get_prop k1 p = Some (JStr a)" "n1 \<le> length a"
      by (simp_all add: z_string_min_Inr_iff)
    with assms(3) have no2: "\<nexists>b. get_prop k2 p = Some (JStr b) \<and> n2 \<le> length b" by blast
    show ?thesis
    proof (cases ?r2)
      case (Inl is2)
      with z_string_min_Inl [OF Inl assms(2)] obtain i where i: "is2 = [i]" "message i \<noteq> []"
        by blast
      with Inl Inr JObj show ?thesis by (simp add: Let_def)
    next
      case Inr2: (Inr b)
      then have "get_prop k2 p = Some (JStr b) \<and> n2 \<le> length b"
        by (simp add: z_string_min_Inr_iff)
      with no2 show ?thesis by blast
    qed
  qed
qed (simp_all add: js_def)

lemma z_object2_first_short:
  assumes "get_prop k1 p = Some (JStr a)" and "length a < n1"
  shows "\<exists>is. z_object2 n1 m1 k1 n2 m2 k2 p = Inl (ZodError (\<lparr>path = [k1], message = m1\<rparr> # is))"
proof (cases p)
  case (JObj kvs)
  with assms show ?thesis
    by (cases "z_string_min n2 m2 k2 (get_prop k2 (JObj kvs))") (simp_all add: Let_def)
qed (use assms in simp_all)

lemma z_object2_second_short:
  assumes "get_prop k1 p = Some (JStr a)" and "n1 \<le> length a"
    and "get_prop k2 p = Some (JStr b)" and "length b < n2"
  shows "z_object2 n1 m1 k1 n2 m2 k2 p = Inl (ZodError [\<lparr>path = [k2], message = m2\<rparr>])"
  using assms by (cases p) (simp_all add: Let_def)

section \<open>The handlers on a body that fails validation\<close>

lemma POST_search_invalid:
  "bodySchema_search p = Inl e \<Longrightarrow> POST_search fm fetch (Inr p) = (catch_reply e, [])"
  by (simp add: POST_search_def)

lemma POST_comments_invalid:
  "bodySchema_comments p = Inl e \<Longrightarrow> POST_comments fm fetch (Inr p) = (catch_reply e, [])"
  by (simp add: POST_comments_def)

lemma POST_channel_invalid:
  "bodySchema_channel p = Inl e \<Longrightarrow> POST_channel fm num fetch (Inr p) = (catch_reply e, [])"
  by (simp add: POST_channel_def)

lemma POST_search_reject:
  "bodySchema_search p = Inl (ZodError (i # is)) \<Longrightarrow>
   POST_search fm fetch (Inr p) = (Reply 400 (JObj [(js ''error'', JStr (message i))]), [])"
  by (simp add: POST_search_invalid)

lemma POST_comments_reject:
  "bodySchema_comments p = Inl (ZodError (i # is)) \<Longrightarrow>
   POST_comments fm fetch (Inr p) = (Reply 400 (JObj [(js ''error'', JStr (message i))]), [])"
  by (simp add: POST_comments_invalid)

lemma POST_channel_reject:
  "bodySchema_channel p = Inl (ZodError (i # is)) \<Longrightarrow>
   POST_channel fm num fetch (Inr p) = (Reply 400 (JObj [(js ''error'', JStr (message i))]), [])"
  by (simp add: POST_channel_invalid)

lemma bodySchema_search_reject:
  assumes "(\<nexists>a. get_prop (js ''apiKey'') p = Some (JStr a) \<and> 10 \<le> length a) \<or>
           (\<nexists>q. get_prop (js ''query'') p = Some (JStr q) \<and> 2 \<le> length q)"
  shows "\<exists>i is. bodySchema_search p = Inl (ZodError (i # is)) \<and> message i \<noteq> []"
  unfolding bodySchema_search_def by (rule z_object2_reject [OF _ _ assms]) simp_all

lemma bodySchema_comments_reject:
  assumes "(\<nexists>a. get_prop (js ''apiKey'') p = Some (JStr a) \<and> 10 \<le> length a) \<or>
           (\<nexists>v. get_prop (js ''videoId'') p = Some (JStr v) \<and> 3 \<le> length v)"
  shows "\<exists>i is. bodySchema_comments p = Inl (ZodError (i # is)) \<and> message i \<noteq> []"
  unfolding bodySchema_comments_def by (rule z_object2_reject [OF _ _ assms]) simp_all

lemma bodySchema_channel_reject:
  assumes "(\<nexists>a. get_prop (js ''apiKey'') p = Some (JStr a) \<and> 10 \<le> length a) \<or>
           (\<nexists>c. get_prop (js ''channelId'') p = Some (JStr c) \<and> 3 \<le> length c)"
  shows "\<exists>i is. bodySchema_channel p = Inl (ZodError (i # is)) \<and> message i \<noteq> []"
  unfolding bodySchema_channel_def by (rule z_object2_reject [OF _ _ assms]) simp_all

text \<open>
  C4. In each of the three handlers, a body whose credential field or whose
  identifier/query field fails validation (it is not a string of the required length)
  is answered with status 400 and a non-empty error string, the message of the first
  validation issue, and no outbound request is made.
\<close>

theorem invalid_body_rejected_without_call:
  "((\<nexists>a. get_prop (js ''apiKey'') p = Some (JStr a) \<and> 10 \<le> length a) \<or>
    (\<nexists>q. get_prop (js ''query'') p = Some (JStr q) \<and> 2 \<le> length q) \<longrightarrow>
    (\<exists>i is. bodySchema_search p = Inl (ZodError (i # is)) \<and> message i \<noteq> [] \<and>
       POST_search fm fetch (Inr p) = (Reply 400 (JObj [(js ''error'', JStr (message i))]), [])))
   \<and>
   ((\<nexists>a. get_prop (js ''apiKey'') p = Some (JStr a) \<and> 10 \<le> length a) \<or>
    (\<nexists>v. get_prop (js ''videoId'') p = Some (JStr v) \<and> 3 \<le> length v) \<longrightarrow>
    (\<exists>i is. bodySchema_comments p = Inl (ZodError (i # is)) \<and> message i \<noteq> [] \<and>
       POST_comments fm fetch (Inr p) = (Reply 400 (JObj [(js ''error'', JStr (message i))]), [])))
   \<and>
   ((\<nexists>a. get_prop (js ''apiKey'') p = Some (JStr a) \<and> 10 \<le> length a) \<or>
    (\<nexists>c. get_prop (js ''channelId'') p = Some (JStr c) \<and> 3 \<le> length c) \<longrightarrow>
    (\<exists>i is. bodySchema_channel p = Inl (ZodError (i # is)) \<and> message i \<noteq> [] \<and>
       POST_channel fm num fetch (Inr p) = (Reply 400 (JObj [(js ''error'', JStr (message i))]), [])))"
proof (intro conjI impI)
  assume "(\<nexists>a. get_prop (js ''apiKey'') p = Some (JStr a) \<and> 10 \<le> length a) \<or>
          (\<nexists>q. get_prop (js ''query'') p = Some (JStr q) \<and> 2 \<le> length q)"
  from bodySchema_search_reject [OF this]
  obtain i "is" where "bodySchema_search p = Inl (ZodError (i # is))" "message i \<noteq> []"
    by blast
  then show "\<exists>i is. bodySchema_search p = Inl (ZodError (i # is)) \<and> message i \<noteq> [] \<and>
       POST_search fm fetch (Inr p) = (Reply 400 (JObj [(js ''error'', JStr (message i))]), [])"
    using POST_search_reject by blast
next
  assume "(\<nexists>a. get_prop (js ''apiKey'') p = Some (JStr a) \<and> 10 \<le> length a) \<or>
          (\<nexists>v. get_prop (js ''videoId'') p = Some (JStr v) \<and> 3 \<le> length v)"
  from bodySchema_comments_reject [OF this]
  obtain i "is" where "bodySchema_comments p = Inl (ZodError (i # is))" "message i \<noteq> []"
    by blast
  then show "\<exists>i is. bodySchema_comments p = Inl (ZodError (i # is)) \<and> message i \<noteq> [] \<and>
       POST_comments fm fetch (Inr p) = (Reply 400 (JObj [(js ''error'', JStr (message i))]), [])"
    using POST_comments_reject by blast
next
  assume "(\<nexists>a. get_prop (js ''apiKey'') p = Some (JStr a) \<and> 10 \<le> length a) \<or>
          (\<nexists>c. get_prop (js ''channelId'') p = Some (JStr c) \<and> 3 \<le> length c)"
  from bodySchema_channel_reject [OF this]
  obtain i "is" where "bodySchema_channel p = Inl (ZodError (i # is))" "message i \<noteq> []"
    by blast
  then show "\<exists>i is. bodySchema_channel p = Inl (ZodError (i # is)) \<and> message i \<noteq> [] \<and>
       POST_channel fm num fetch (Inr p) = (Reply 400 (JObj [(js ''error'', JStr (message i))]), [])"
    using POST_channel_reject by blast
qed

theorem invalid_body_rejected_without_call_witness:
  "(\<nexists>a. get_prop (js ''apiKey'') (JObj [(js ''query'', JStr (js ''cats''))]) = Some (JStr a)
        \<and> 10 \<le> length a) \<and>
   (\<exists>i is. bodySchema_search (JObj [(js ''query'', JStr (js ''cats''))]) = Inl (ZodError (i # is)) \<and>
      message i \<noteq> [] \<and>
      POST_search fault_text (answering (Rejected [])) (Inr (JObj [(js ''query'', JStr (js ''cats''))])) =
        (Reply 400 (JObj [(js ''error'', JStr (message i))]), [])) \<and>
   (\<exists>i is. bodySchema_comments (JObj [(js ''query'', JStr (js ''cats''))]) = Inl (ZodError (i # is)) \<and>
      message i \<noteq> [] \<and>
      POST_comments fault_text (answering (Rejected [])) (Inr (JObj [(js ''query'', JStr (js ''cats''))])) =
        (Reply 400 (JObj [(js ''error'', JStr (message i))]), [])) \<and>
   (\<exists>i is. bodySchema_channel (JObj [(js ''query'', JStr (js ''cats''))]) = Inl (ZodError (i # is)) \<and>
      message i \<noteq> [] \<and>
      POST_channel fault_text number_of (answering (Rejected []))
          (Inr (JObj [(js ''query'', JStr (js ''cats''))])) =
        (Reply 400 (JObj [(js ''error'', JStr (message i))]), []))"
proof -
  have h: "\<nexists>a. get_prop (js ''apiKey'') (JObj [(js ''query'', JStr (js ''cats''))]) = Some (JStr a)
        \<and> 10 \<le> length a"
    by simp
  with invalid_body_rejected_without_call [where p = "JObj [(js ''query'', JStr (js ''cats''))]"
      and fm = fault_text and fetch = "answering (Rejected [])" and num = number_of]
  show ?thesis by blast
qed

text \<open>
  C8. In each of the three handlers, a body whose \<open>apiKey\<close> is a string of fewer than
  10 code units, the empty string or not, is answered with status 400 and the error
  \<open>API key is required\<close>; a \<open>query\<close> of fewer than 2, or a \<open>videoId\<close> or \<open>channelId\<close> of
  fewer than 3, is likewise answered with status 400. No outbound request is made.
\<close>

theorem short_fields_rejected:
  "(get_prop (js ''apiKey'') p = Some (JStr a) \<and> length a < 10 \<longrightarrow>
      POST_search fm fetch (Inr p) =
        (Reply 400 (JObj [(js ''error'', JStr (js ''API key is required''))]), []) \<and>
      POST_comments fm fetch (Inr p) =
        (Reply 400 (JObj [(js ''error'', JStr (js ''API key is required''))]), []) \<and>
      POST_channel fm num fetch (Inr p) =
        (Reply 400 (JObj [(js ''error'', JStr (js ''API key is required''))]), []))
   \<and>
   (get_prop (js ''query'') p = Some (JStr q) \<and> length q < 2 \<longrightarrow>
      (\<exists>m. POST_search fm fetch (Inr p) = (Reply 400 (JObj [(js ''error'', JStr m)]), [])))
   \<and>
   (get_prop (js ''videoId'') p = Some (JStr v) \<and> length v < 3 \<longrightarrow>
      (\<exists>m. POST_comments fm fetch (Inr p) = (Reply 400 (JObj [(js ''error'', JStr m)]), [])))
   \<and>
   (get_prop (js ''channelId'') p = Some (JStr c) \<and> length c < 3 \<longrightarrow>
      (\<exists>m. POST_channel fm num fetch (Inr p) = (Reply 400 (JObj [(js ''error'', JStr m)]), [])))"
proof (intro conjI impI; elim conjE)
  assume a: "get_prop (js ''apiKey'') p = Some (JStr a)" "length a < 10"
  from z_object2_first_short [OF a] obtain "is" where
    "bodySchema_search p =
       Inl (ZodError (\<lparr>path = [js ''apiKey''], message = js ''API key is required''\<rparr> # is))"
    unfolding bodySchema_search_def by blast
  from POST_search_reject [OF this]
  show "POST_search fm fetch (Inr p) =
        (Reply 400 (JObj [(js ''error'', JStr (js ''API key is required''))]), [])"
    by simp
  from z_object2_first_short [OF a] obtain "is" where
    "bodySchema_comments p =
       Inl (ZodError (\<lparr>path = [js ''apiKey''], message = js ''API key is required''\<rparr> # is))"
    unfolding bodySchema_comments_def by blast
  from POST_comments_reject [OF this]
  show "POST_comments fm fetch (Inr p) =
        (Reply 400 (JObj [(js ''error'', JStr (js ''API key is required''))]), [])"
    by simp
  from z_object2_first_short [OF a] obtain "is" where
    "bodySchema_channel p =
       Inl (ZodError (\<lparr>path = [js ''apiKey''], message = js ''API key is required''\<rparr> # is))"
    unfolding bodySchema_channel_def by blast
  from POST_channel_reject [OF this]
  show "POST_channel fm num fetch (Inr p) =
        (Reply 400 (JObj [(js ''error'', JStr (js ''API key is required''))]), [])"
    by simp
next
  assume "get_prop (js ''query'') p = Some (JStr q)" "length q < 2"
  then have "\<nexists>b. get_prop (js ''query'') p = Some (JStr b) \<and> 2 \<le> length b" by auto
  then obtain i "is" where "bodySchema_search p = Inl (ZodError (i # is))"
    using bodySchema_search_reject [of p] by blast
  from POST_search_reject [OF this]
  show "\<exists>m. POST_search fm fetch (Inr p) = (Reply 400 (JObj [(js ''error'', JStr m)]), [])"
    by blast
next
  assume "get_prop (js ''videoId'') p = Some (JStr v)" "length v < 3"
  then have "\<nexists>b. get_prop (js ''videoId'') p = Some (JStr b) \<and> 3 \<le> length b" by auto
  then obtain i "is" where "bodySchema_comments p = Inl (ZodError (i # is))"
    using bodySchema_comments_reject [of p] by blast
  from POST_comments_reject [OF this]
  show "\<exists>m. POST_comments fm fetch (Inr p) = (Reply 400 (JObj [(js ''error'', JStr m)]), [])"
    by blast
next
  assume "get_prop (js ''channelId'') p = Some (JStr c)" "length c < 3"
  then have "\<nexists>b. get_prop (js ''channelId'') p = Some (JStr b) \<and> 3 \<le> length b" by auto
  then obtain i "is" where "bodySchema_channel p = Inl (ZodError (i # is))"
    using bodySchema_channel_reject [of p] by blast
  from POST_channel_reject [OF this]
  show "\<exists>m. POST_channel fm num fetch (Inr p) = (Reply 400 (JObj [(js ''error'', JStr m)]), [])"
    by blast
qed

theorem short_fields_rejected_witness:
  "(get_prop (js ''apiKey'') short_key_body = Some (JStr (js ''short'')) \<and>
     js ''short'' \<noteq> [] \<and> length (js ''short'') < 10) \<and>
   (get_prop (js ''query'') short_key_body = Some (JStr (js ''c'')) \<and> length (js ''c'') < 2) \<and>
   (get_prop (js ''videoId'') short_key_body = Some (JStr (js ''ab'')) \<and> length (js ''ab'') < 3) \<and>
   (get_prop (js ''channelId'') short_key_body = Some (JStr (js ''UC'')) \<and> length (js ''UC'') < 3) \<and>
   POST_search fault_text (answering (Rejected [])) (Inr short_key_body) =
     (Reply 400 (JObj [(js ''error'', JStr (js ''API key is required''))]), []) \<and>
   POST_comments fault_text (answering (Rejected [])) (Inr short_key_body) =
     (Reply 400 (JObj [(js ''error'', JStr (js ''API key is required''))]), []) \<and>
   POST_channel fault_text number_of (answering (Rejected [])) (Inr short_key_body) =
     (Reply 400 (JObj [(js ''error'', JStr (js ''API key is required''))]), [])"
proof -
  have h: "get_prop (js ''apiKey'') short_key_body = Some (JStr (js ''short''))"
      "length (js ''short'') < 10"
      "get_prop (js ''query'') short_key_body = Some (JStr (js ''c''))" "length (js ''c'') < 2"
      "get_prop (js ''videoId'') short_key_body = Some (JStr (js ''ab''))" "length (js ''ab'') < 3"
      "get_prop (js ''channelId'') short_key_body = Some (JStr (js ''UC''))" "length (js ''UC'') < 3"
    by (simp_all add: short_key_body_def)
  have n: "js ''short'' \<noteq> []" by simp
  from h n short_fields_rejected [where p = short_key_body and a = "js ''short''" and q = "js ''c''"
      and v = "js ''ab''" and c = "js ''UC''" and fm = fault_text
      and fetch = "answering (Rejected [])" and num = number_of]
  show ?thesis by blast
qed

section \<open>The handlers on a body that passes validation\<close>

lemma bodySchema_search_accept:
  assumes "get_prop (js ''apiKey'') p = Some (JStr k)" and "10 \<le> length k"
    and "get_prop (js ''query'') p = Some (JStr q)" and "2 \<le> length q"
  shows "bodySchema_search p = Inr (k, q)"
  unfolding bodySchema_search_def using assms by (rule z_object2_accept)

lemma bodySchema_comments_accept:
  assumes "get_prop (js ''apiKey'') p = Some (JStr k)" and "10 \<le> length k"
    and "get_prop (js ''videoId'') p = Some (JStr v)" and "3 \<le> length v"
  shows "bodySchema_comments p = Inr (k, v)"
  unfolding bodySchema_comments_def using assms by (rule z_object2_accept)

lemma bodySchema_channel_accept:
  assumes "get_prop (js ''apiKey'') p = Some (JStr k)" and "10 \<le> length k"
    and "get_prop (js ''channelId'') p = Some (JStr c)" and "3 \<le> length c"
  shows "bodySchema_channel p = Inr (k, c)"
  unfolding bodySchema_channel_def using assms by (rule z_object2_accept)

lemma valid_body_search: "bodySchema_search valid_body = Inr (js ''AIzaSyExampleKey'', js ''cats'')"
  by (rule bodySchema_search_accept) (simp_all add: valid_body_def)

lemma valid_body_comments:
  "bodySchema_comments valid_body = Inr (js ''AIzaSyExampleKey'', js ''dQw4w9WgXcQ'')"
  by (rule bodySchema_comments_accept) (simp_all add: valid_body_def)

lemma valid_body_channel:
  "bodySchema_channel valid_body = Inr (js ''AIzaSyExampleKey'', js ''UC1234'')"
  by (rule bodySchema_channel_accept) (simp_all add: valid_body_def)

subsection \<open>A status that is not a success\<close>

lemma POST_search_not_ok:
  assumes "bodySchema_search p = Inr (k, q)" and "fetch (search_url k q) = Responded st bdy"
    and "\<not> ok st"
  shows "POST_search fm fetch (Inr p) = (not_ok_reply fm st bdy, [search_url k q])"
  using assms by (simp add: POST_search_def)

lemma POST_comments_not_ok:
  assumes "bodySchema_comments p = Inr (k, v)" and "fetch (comments_url k v) = Responded st bdy"
    and "\<not> ok st"
  shows "POST_comments fm fetch (Inr p) = (not_ok_reply fm st bdy, [comments_url k v])"
  using assms by (simp add: POST_comments_def)

lemma POST_channel_not_ok:
  assumes "bodySchema_channel p = Inr (k, c)" and "fetch (channel_url k c) = Responded st bdy"
    and "\<not> ok st"
  shows "POST_channel fm num fetch (Inr p) = (not_ok_reply fm st bdy, [channel_url k c])"
  using assms by (simp add: POST_channel_def)

lemma not_ok_from_300: "300 \<le> st \<Longrightarrow> \<not> ok st"
  by (simp add: ok_def)

lemma NextResponse_json_relays:
  "300 \<le> st \<Longrightarrow> st \<le> 599 \<Longrightarrow> st \<noteq> 304 \<Longrightarrow> NextResponse_json fm b st = Inr (Reply st b)"
  by (simp add: NextResponse_json_def null_body_status_def)

lemma nullish_or_present: "v = Some m \<Longrightarrow> m \<noteq> JNull \<Longrightarrow> nullish_or v d = m"
  by (cases m) simp_all

lemma nullish_or_absent: "v = None \<or> v = Some JNull \<Longrightarrow> nullish_or v d = d"
  by auto

lemma not_ok_reply_present:
  "300 \<le> st \<Longrightarrow> st \<le> 599 \<Longrightarrow> st \<noteq> 304 \<Longrightarrow> platform_message bdy = Some m \<Longrightarrow> m \<noteq> JNull \<Longrightarrow>
   not_ok_reply fm st bdy = Reply st (JObj [(js ''error'', m)])"
  by (simp add: not_ok_reply_def nullish_or_present NextResponse_json_relays)

lemma not_ok_reply_absent:
  "300 \<le> st \<Longrightarrow> st \<le> 599 \<Longrightarrow> st \<noteq> 304 \<Longrightarrow>
   platform_message bdy = None \<or> platform_message bdy = Some JNull \<Longrightarrow>
   not_ok_reply fm st bdy =
     Reply st (JObj [(js ''error'', JStr (js ''YouTube API responded with '' @ js (show_nat st)))])"
  by (simp add: not_ok_reply_def nullish_or_absent NextResponse_json_relays)

lemma not_ok_reply_304:
  "not_ok_reply fm 304 bdy = Reply 400 (JObj [(js ''error'', JStr (fm (NullBodyStatus 304)))])"
  by (simp add: not_ok_reply_def NextResponse_json_def null_body_status_def Let_def)

lemma platform_message_unparsable: "platform_message (Inl m) = None"
  by (simp add: platform_message_def)

lemma platform_message_object:
  "platform_message (Inr (JObj [(js ''error'', JObj [(js ''message'', m)])])) = Some m"
  by (simp add: platform_message_def)

lemma show_nat_500: "show_nat 500 = ''500''"
  by (simp add: show_nat.simps)

text \<open>
  C5, as stated: the generic message of a non-success status would be
  \<open>API responded with <status>\<close>, and every non-success status would be relayed. On
  status 500 with a body that carries no message, the search handler answers
  \<open>YouTube API responded with 500\<close>; on status 304, which a response with a body cannot
  carry, it answers with status 400.
\<close>

theorem generic_message_counterexample:
  "fst (POST_search fault_text (answering (Responded 500 (Inr (JObj [])))) (Inr valid_body)) =
     Reply 500 (JObj [(js ''error'', JStr (js ''YouTube API responded with 500''))]) \<and>
   fst (POST_search fault_text (answering (Responded 500 (Inr (JObj [])))) (Inr valid_body)) \<noteq>
     Reply 500 (JObj [(js ''error'', JStr (js ''API responded with 500''))]) \<and>
   \<not> ok 304 \<and>
   fst (POST_search fault_text (answering (Responded 304 (Inr (JObj [])))) (Inr valid_body)) =
     Reply 400 (JObj [(js ''error'', JStr (fault_text (NullBodyStatus 304)))]) \<and>
   status (fst (POST_search fault_text (answering (Responded 304 (Inr (JObj [])))) (Inr valid_body)))
     \<noteq> 304"
proof -
  have n: "\<not> ok 500" "\<not> ok 304" by (simp_all add: ok_def)
  from POST_search_not_ok [OF valid_body_search _ n(1),
      where fetch = "answering (Responded 500 (Inr (JObj [])))" and bdy = "Inr (JObj [])"
        and fm = fault_text]
  have "fst (POST_search fault_text (answering (Responded 500 (Inr (JObj [])))) (Inr valid_body)) =
          not_ok_reply fault_text 500 (Inr (JObj []))"
    by (simp add: answering_def)
  also have "\<dots> = Reply 500 (JObj [(js ''error'', JStr (js ''YouTube API responded with 500''))])"
    by (simp add: not_ok_reply_absent platform_message_def show_nat_500 js_append [symmetric])
  finally have a:
    "fst (POST_search fault_text (answering (Responded 500 (Inr (JObj [])))) (Inr valid_body)) =
       Reply 500 (JObj [(js ''error'', JStr (js ''YouTube API responded with 500''))])" .
  from POST_search_not_ok [OF valid_body_search _ n(2),
      where fetch = "answering (Responded 304 (Inr (JObj [])))" and bdy = "Inr (JObj [])"
        and fm = fault_text]
  have b: "fst (POST_search fault_text (answering (Responded 304 (Inr (JObj [])))) (Inr valid_body)) =
          Reply 400 (JObj [(js ''error'', JStr (fault_text (NullBodyStatus 304)))])"
    by (simp add: answering_def not_ok_reply_304)
  from a b n(2) show ?thesis by simp
qed

text \<open>
  C5, amended. In each of the three handlers, when the body passes validation and the
  platform answers with a status that is not a success and that a response with a
  body can carry (from 300 to 599, other than 304), the reply carries that status
  unchanged, and its error is the platform's own message
  (\<open>errorPayload?.error?.message\<close>) when there is one, and otherwise the generic message
  \<open>YouTube API responded with <status>\<close>.
\<close>

theorem non_success_status_relayed:
  assumes "300 \<le> st" and "st \<le> 599" and "st \<noteq> 304"
  shows
  "(bodySchema_search p = Inr (k, q) \<and> fetch (search_url k q) = Responded st bdy \<longrightarrow>
      (\<forall>m. platform_message bdy = Some m \<and> m \<noteq> JNull \<longrightarrow>
         POST_search fm fetch (Inr p) = (Reply st (JObj [(js ''error'', m)]), [search_url k q])) \<and>
      (platform_message bdy = None \<or> platform_message bdy = Some JNull \<longrightarrow>
         POST_search fm fetch (Inr p) =
           (Reply st (JObj [(js ''error'', JStr (js ''YouTube API responded with '' @ js (show_nat st)))]),
            [search_url k q])))
   \<and>
   (bodySchema_comments p = Inr (k, v) \<and> fetch (comments_url k v) = Responded st bdy \<longrightarrow>
      (\<forall>m. platform_message bdy = Some m \<and> m \<noteq> JNull \<longrightarrow>
         POST_comments fm fetch (Inr p) = (Reply st (JObj [(js ''error'', m)]), [comments_url k v])) \<and>
      (platform_message bdy = None \<or> platform_message bdy = Some JNull \<longrightarrow>
         POST_comments fm fetch (Inr p) =
           (Reply st (JObj [(js ''error'', JStr (js ''YouTube API responded with '' @ js (show_nat st)))]),
            [comments_url k v])))
   \<and>
   (bodySchema_channel p = Inr (k, c) \<and> fetch (channel_url k c) = Responded st bdy \<longrightarrow>
      (\<forall>m. platform_message bdy = Some m \<and> m \<noteq> JNull \<longrightarrow>
         POST_channel fm num fetch (Inr p) = (Reply st (JObj [(js ''error'', m)]), [channel_url k c])) \<and>
      (platform_message bdy = None \<or> platform_message bdy = Some JNull \<longrightarrow>
         POST_channel fm num fetch (Inr p) =
           (Reply st (JObj [(js ''error'', JStr (js ''YouTube API responded with '' @ js (show_nat st)))]),
            [channel_url k c])))"
proof (intro conjI impI allI; elim conjE)
  note n = not_ok_from_300 [OF assms(1)]
  fix m
  assume "bodySchema_search p = Inr (k, q)" "fetch (search_url k q) = Responded st bdy"
    "platform_message bdy = Some m" "m \<noteq> JNull"
  then show "POST_search fm fetch (Inr p) = (Reply st (JObj [(js ''error'', m)]), [search_url k q])"
    using assms n by (simp add: POST_search_not_ok not_ok_reply_present)
next
  note n = not_ok_from_300 [OF assms(1)]
  assume "bodySchema_search p = Inr (k, q)" "fetch (search_url k q) = Responded st bdy"
    "platform_message bdy = None \<or> platform_message bdy = Some JNull"
  then show "POST_search fm fetch (Inr p) =
      (Reply st (JObj [(js ''error'', JStr (js ''YouTube API responded with '' @ js (show_nat st)))]),
       [search_url k q])"
    using assms n by (simp add: POST_search_not_ok not_ok_reply_absent)
next
  note n = not_ok_from_300 [OF assms(1)]
  fix m
  assume "bodySchema_comments p = Inr (k, v)" "fetch (comments_url k v) = Responded st bdy"
    "platform_message bdy = Some m" "m \<noteq> JNull"
  then show "POST_comments fm fetch (Inr p) = (Reply st (JObj [(js ''error'', m)]), [comments_url k v])"
    using assms n by (simp add: POST_comments_not_ok not_ok_reply_present)
next
  note n = not_ok_from_300 [OF assms(1)]
  assume "bodySchema_comments p = Inr (k, v)" "fetch (comments_url k v) = Responded st bdy"
    "platform_message bdy = None \<or> platform_message bdy = Some JNull"
  then show "POST_comments fm fetch (Inr p) =
      (Reply st (JObj [(js ''error'', JStr (js ''YouTube API responded with '' @ js (show_nat st)))]),
       [comments_url k v])"
    using assms n by (simp add: POST_comments_not_ok not_ok_reply_absent)
next
  note n = not_ok_from_300 [OF assms(1)]
  fix m
  assume "bodySchema_channel p = Inr (k, c)" "fetch (channel_url k c) = Responded st bdy"
    "platform_message bdy = Some m" "m \<noteq> JNull"
  then show "POST_channel fm num fetch (Inr p) = (Reply st (JObj [(js ''error'', m)]), [channel_url k c])"
    using assms n by (simp add: POST_channel_not_ok not_ok_reply_present)
next
  note n = not_ok_from_300 [OF assms(1)]
  assume "bodySchema_channel p = Inr (k, c)" "fetch (channel_url k c) = Responded st bdy"
    "platform_message bdy = None \<or> platform_message bdy = Some JNull"
  then show "POST_channel fm num fetch (Inr p) =
      (Reply st (JObj [(js ''error'', JStr (js ''YouTube API responded with '' @ js (show_nat st)))]),
       [channel_url k c])"
    using assms n by (simp add: POST_channel_not_ok not_ok_reply_absent)
qed

theorem non_success_status_relayed_witness:
  "(300::nat) \<le> 403 \<and> (403::nat) \<le> 599 \<and> (403::nat) \<noteq> 304 \<and>
   (300::nat) \<le> 503 \<and> (503::nat) \<le> 599 \<and> (503::nat) \<noteq> 304 \<and>
   (300::nat) \<le> 404 \<and> (404::nat) \<le> 599 \<and> (404::nat) \<noteq> 304 \<and>
   POST_search fault_text
       (answering (Responded 403
          (Inr (JObj [(js ''error'', JObj [(js ''message'', JStr (js ''quotaExceeded''))])]))))
       (Inr valid_body) =
     (Reply 403 (JObj [(js ''error'', JStr (js ''quotaExceeded''))]),
      [search_url (js ''AIzaSyExampleKey'') (js ''cats'')]) \<and>
   POST_comments fault_text (answering (Responded 503 (Inl (js ''Unexpected token <''))))
       (Inr valid_body) =
     (Reply 503 (JObj [(js ''error'', JStr (js ''YouTube API responded with 503''))]),
      [comments_url (js ''AIzaSyExampleKey'') (js ''dQw4w9WgXcQ'')]) \<and>
   POST_channel fault_text number_of (answering (Responded 404 (Inr (JObj [(js ''error'', JNull)]))))
       (Inr valid_body) =
     (Reply 404 (JObj [(js ''error'', JStr (js ''YouTube API responded with 404''))]),
      [channel_url (js ''AIzaSyExampleKey'') (js ''UC1234'')])"
proof -
  have n: "(300::nat) \<le> 403" "(403::nat) \<le> 599" "(403::nat) \<noteq> 304"
    "(300::nat) \<le> 503" "(503::nat) \<le> 599" "(503::nat) \<noteq> 304"
    "(300::nat) \<le> 404" "(404::nat) \<le> 599" "(404::nat) \<noteq> 304"
    by simp_all
  have m1: "platform_message
      (Inr (JObj [(js ''error'', JObj [(js ''message'', JStr (js ''quotaExceeded''))])])) =
      Some (JStr (js ''quotaExceeded'')) \<and> JStr (js ''quotaExceeded'') \<noteq> JNull"
    by (simp add: platform_message_object)
  have m2: "platform_message (Inl (js ''Unexpected token <'')) = None"
    by (rule platform_message_unparsable)
  have m3: "platform_message (Inr (JObj [(js ''error'', JNull)])) = None"
    by (simp add: platform_message_def)
  have s: "show_nat 503 = ''503''" "show_nat 404 = ''404''" by (simp_all add: show_nat.simps)
  have a: "POST_search fault_text
       (answering (Responded 403
          (Inr (JObj [(js ''error'', JObj [(js ''message'', JStr (js ''quotaExceeded''))])]))))
       (Inr valid_body) =
     (Reply 403 (JObj [(js ''error'', JStr (js ''quotaExceeded''))]),
      [search_url (js ''AIzaSyExampleKey'') (js ''cats'')])"
    using non_success_status_relayed [OF n(1,2,3), where p = valid_body and k = "js ''AIzaSyExampleKey''"
        and q = "js ''cats''" and fm = fault_text
        and fetch = "answering (Responded 403
          (Inr (JObj [(js ''error'', JObj [(js ''message'', JStr (js ''quotaExceeded''))])])))"
        and bdy = "Inr (JObj [(js ''error'', JObj [(js ''message'', JStr (js ''quotaExceeded''))])])"]
      valid_body_search m1
    by (simp add: answering_def)
  have b: "POST_comments fault_text (answering (Responded 503 (Inl (js ''Unexpected token <''))))
       (Inr valid_body) =
     (Reply 503 (JObj [(js ''error'', JStr (js ''YouTube API responded with 503''))]),
      [comments_url (js ''AIzaSyExampleKey'') (js ''dQw4w9WgXcQ'')])"
    using non_success_status_relayed [OF n(4,5,6), where p = valid_body and k = "js ''AIzaSyExampleKey''"
        and v = "js ''dQw4w9WgXcQ''" and fm = fault_text
        and fetch = "answering (Responded 503 (Inl (js ''Unexpected token <'')))"
        and bdy = "Inl (js ''Unexpected token <'')"]
      valid_body_comments m2
    by (simp add: answering_def s js_append [symmetric])
  have c: "POST_channel fault_text number_of (answering (Responded 404 (Inr (JObj [(js ''error'', JNull)]))))
       (Inr valid_body) =
     (Reply 404 (JObj [(js ''error'', JStr (js ''YouTube API responded with 404''))]),
      [channel_url (js ''AIzaSyExampleKey'') (js ''UC1234'')])"
    using non_success_status_relayed [OF n(7,8,9), where p = valid_body and k = "js ''AIzaSyExampleKey''"
        and c = "js ''UC1234''" and fm = fault_text and num = number_of
        and fetch = "answering (Responded 404 (Inr (JObj [(js ''error'', JNull)])))"
        and bdy = "Inr (JObj [(js ''error'', JNull)])"]
      valid_body_channel m3
    by (simp add: answering_def s js_append [symmetric])
  from n a b c show ?thesis by blast
qed

subsection \<open>A success status\<close>

lemma traverse_all_Inr:
  "(\<And>x. x \<in> set xs \<Longrightarrow> f x = Inr (g x)) \<Longrightarrow> traverse f xs = Inr (map g xs)"
  by (induction xs) simp_all

lemma read_prop_not_null: "v \<noteq> JNull \<Longrightarrow> read_prop fm k v = Inr (get_prop k v)"
  by (simp add: read_prop_def)

lemma get_prop_Some_not_null: "get_prop k v = Some x \<Longrightarrow> v \<noteq> JNull"
  by (cases v) simp_all

lemma items_map_array:
  assumes "get_prop (js ''items'') result = Some (JArr its)"
  shows "items_map fm f result = traverse f its"
  using assms by (simp add: items_map_def read_prop_not_null get_prop_Some_not_null)


lemma comment_items:
  assumes "JNull \<notin> set its"
  shows "traverse (comment_item fm) its =
         Inr (map (\<lambda>item. if truthy (topLevel_of item) then Some (comment_of item) else None) its)"
proof (rule traverse_all_Inr)
  fix x assume "x \<in> set its"
  with assms have "x \<noteq> JNull" by auto
  then show "comment_item fm x = Inr (if truthy (topLevel_of x) then Some (comment_of x) else None)"
    by (simp add: comment_item_def read_prop_not_null)
qed

lemma filter_Boolean_map:
  "filter_Boolean (map (\<lambda>x. if P x then Some (f x) else None) xs) = map f (filter P xs)"
  by (induction xs) (simp_all add: filter_Boolean_def map_filter_simps)


lemma POST_comments_ok_items:
  assumes "bodySchema_comments p = Inr (k, v)"
    and "fetch (comments_url k v) = Responded st (Inr result)" and "ok st"
    and "get_prop (js ''items'') result = Some (JArr its)" and "JNull \<notin> set its"
  shows "POST_comments fm fetch (Inr p) =
         (Reply 200 (JObj [(js ''data'',
            JArr (map comment_of (filter (\<lambda>item. truthy (topLevel_of item)) its)))]),
          [comments_url k v])"
  using assms by (simp add: POST_comments_def items_map_array comment_items filter_Boolean_map)


lemma POST_channel_ok_none:
  assumes "bodySchema_channel p = Inr (k, c)"
    and "fetch (channel_url k c) = Responded st (Inr result)" and "ok st"
    and "result \<noteq> JNull"
    and "get_prop (js ''items'') result = None \<or> get_prop (js ''items'') result = Some (JArr [])"
  shows "POST_channel fm num fetch (Inr p) = (channel_not_found, [channel_url k c])"
  using assms by (auto simp add: POST_channel_def read_prop_not_null)









text \<open>
  C9. In the channel handler, a success status with a body (a JSON value other than
  \<open>null\<close>) whose \<open>items\<close> is missing or is the empty list is answered with status 404
  and the error \<open>Channel not found. Double-check the channel ID.\<close>, not with a data
  result.
\<close>

theorem channel_without_items_not_found:
  assumes "bodySchema_channel p = Inr (k, c)"
    and "fetch (channel_url k c) = Responded st (Inr result)" and "ok st"
    and "result \<noteq> JNull"
    and "get_prop (js ''items'') result = None \<or> get_prop (js ''items'') result = Some (JArr [])"
  shows "POST_channel fm num fetch (Inr p) =
         (Reply 404 (JObj [(js ''error'', JStr (js ''Channel not found. Double-check the channel ID.''))]),
          [channel_url k c])"
proof -
  from assms have "POST_channel fm num fetch (Inr p) = (channel_not_found, [channel_url k c])"
    by (rule POST_channel_ok_none)
  then show ?thesis by (simp add: channel_not_found_def)
qed

theorem channel_without_items_not_found_witness:
  "ok 200 \<and> JObj [] \<noteq> JNull \<and> get_prop (js ''items'') (JObj []) = None \<and>
   get_prop (js ''items'') (JObj [(js ''items'', JArr [])]) = Some (JArr []) \<and>
   POST_channel fault_text number_of (answering (Responded 200 (Inr (JObj [])))) (Inr valid_body) =
     (Reply 404 (JObj [(js ''error'', JStr (js ''Channel not found. Double-check the channel ID.''))]),
      [channel_url (js ''AIzaSyExampleKey'') (js ''UC1234'')]) \<and>
   POST_channel fault_text number_of (answering (ok_response [])) (Inr valid_body) =
     (Reply 404 (JObj [(js ''error'', JStr (js ''Channel not found. Double-check the channel ID.''))]),
      [channel_url (js ''AIzaSyExampleKey'') (js ''UC1234'')])"
proof -
  have h: "ok 200" "JObj [] \<noteq> JNull" "get_prop (js ''items'') (JObj []) = None"
    "get_prop (js ''items'') (JObj [(js ''items'', JArr [])]) = Some (JArr [])"
    "JObj [(js ''items'', JArr [])] \<noteq> JNull"
    by (simp_all add: ok_def)
  have a: "POST_channel fault_text number_of (answering (Responded 200 (Inr (JObj [])))) (Inr valid_body) =
     (Reply 404 (JObj [(js ''error'', JStr (js ''Channel not found. Double-check the channel ID.''))]),
      [channel_url (js ''AIzaSyExampleKey'') (js ''UC1234'')])"
    by (rule channel_without_items_not_found [OF valid_body_channel _ h(1) h(2)])
       (simp_all add: answering_def)
  have b: "POST_channel fault_text number_of (answering (ok_response [])) (Inr valid_body) =
     (Reply 404 (JObj [(js ''error'', JStr (js ''Channel not found. Double-check the channel ID.''))]),
      [channel_url (js ''AIzaSyExampleKey'') (js ''UC1234'')])"
    by (rule channel_without_items_not_found [OF valid_body_channel _ h(1) h(5)])
       (simp_all add: answering_def ok_response_def)
  from h a b show ?thesis by blast
qed

text \<open>
  C10. In the comments handler, on a success status, the returned list holds one
  comment for each item that has a (truthy) \<open>topLevelComment\<close> under its snippet, in
  order; the other items are dropped, not given default values. So the returned list
  is strictly shorter than the list of items as soon as one item lacks it.
\<close>

theorem comments_without_topLevel_dropped:
  assumes "bodySchema_comments p = Inr (k, v)"
    and "fetch (comments_url k v) = Responded st (Inr result)" and "ok st"
    and "get_prop (js ''items'') result = Some (JArr its)" and "JNull \<notin> set its"
  shows "\<exists>ds. POST_comments fm fetch (Inr p) =
                (Reply 200 (JObj [(js ''data'', JArr ds)]), [comments_url k v]) \<and>
              ds = map comment_of (filter (\<lambda>item. truthy (topLevel_of item)) its) \<and>
              length ds \<le> length its \<and>
              ((\<exists>item \<in> set its. topLevel_of item = None) \<longrightarrow> length ds < length its)"
proof -
  let ?ds = "map comment_of (filter (\<lambda>item. truthy (topLevel_of item)) its)"
  have "POST_comments fm fetch (Inr p) =
          (Reply 200 (JObj [(js ''data'', JArr ?ds)]), [comments_url k v])"
    using assms by (rule POST_comments_ok_items)
  moreover have "length ?ds \<le> length its" by simp
  moreover have "length ?ds < length its" if "\<exists>item \<in> set its. topLevel_of item = None"
  proof -
    from that obtain item where "item \<in> set its" "\<not> truthy (topLevel_of item)" by auto
    then show ?thesis by (auto intro: length_filter_less)
  qed
  ultimately show ?thesis by blast
qed

theorem comments_without_topLevel_dropped_witness:
  "ok 200 \<and> JNull \<notin> set [bare_item, no_comment_item] \<and> topLevel_of no_comment_item = None \<and>
   (\<exists>ds. POST_comments fault_text (answering (ok_response [bare_item, no_comment_item]))
            (Inr valid_body) =
          (Reply 200 (JObj [(js ''data'', JArr ds)]),
           [comments_url (js ''AIzaSyExampleKey'') (js ''dQw4w9WgXcQ'')]) \<and>
        ds = [comment_of bare_item] \<and> length ds < length [bare_item, no_comment_item])"
proof -
  have t: "topLevel_of bare_item = Some (JObj [])" "topLevel_of no_comment_item = None"
    by (simp_all add: topLevel_of_def bare_item_def no_comment_item_def)
  have h: "ok 200" "JNull \<notin> set [bare_item, no_comment_item]"
    by (simp_all add: ok_def bare_item_def no_comment_item_def)
  have f: "answering (ok_response [bare_item, no_comment_item])
             (comments_url (js ''AIzaSyExampleKey'') (js ''dQw4w9WgXcQ'')) =
           Responded 200 (Inr (JObj [(js ''items'', JArr [bare_item, no_comment_item])]))"
    by (simp add: answering_def ok_response_def)
  have i: "get_prop (js ''items'') (JObj [(js ''items'', JArr [bare_item, no_comment_item])]) =
           Some (JArr [bare_item, no_comment_item])"
    by simp
  from comments_without_topLevel_dropped [where fetch = "answering (ok_response [bare_item, no_comment_item])"
      and fm = fault_text, OF valid_body_comments f h(1) i h(2)]
  have "\<exists>ds. POST_comments fault_text (answering (ok_response [bare_item, no_comment_item]))
            (Inr valid_body) =
          (Reply 200 (JObj [(js ''data'', JArr ds)]),
           [comments_url (js ''AIzaSyExampleKey'') (js ''dQw4w9WgXcQ'')]) \<and>
        ds = [comment_of bare_item] \<and> length ds < length [bare_item, no_comment_item]"
    by (simp add: t)
  with h t show ?thesis by blast
qed

section \<open>The runner\<close>

declare step_request.simps [simp del]

lemma channel_line_mark: "channel_line fm fmt d = Inr l \<Longrightarrow> \<exists>t. l = mark_check @ t"
  by (cases "(fm, fmt, d)" rule: channel_line.cases) (auto split: sum.splits)

lemma comments_line_mark: "comments_line fm step d = Inr l \<Longrightarrow> \<exists>t. l = mark_comments @ t"
  by (auto simp add: comments_line_def split: sum.splits)

lemma run_step_Inr_mark:
  assumes "run_step fm fmt fetch s w step = (Inr (Inr l), w')"
  shows "\<exists>t. l = (case step_type step of channelStats \<Rightarrow> mark_check
                   | searchVideos \<Rightarrow> mark_search | fetchComments \<Rightarrow> mark_comments) @ t"
proof (cases "step_type step")
  case channelStats
  with assms obtain d where "channel_line fm fmt d = Inr l"
    by (auto simp add: run_step_def split: prod.splits sum.splits)
  with channelStats show ?thesis by (auto dest: channel_line_mark)
next
  case searchVideos
  with assms obtain three where "l = search_line step three"
    by (auto simp add: run_step_def split: prod.splits sum.splits)
  with searchVideos show ?thesis by (simp add: search_line_def)
next
  case fetchComments
  with assms obtain d where "comments_line fm step d = Inr l"
    by (auto simp add: run_step_def split: prod.splits sum.splits)
  with fetchComments show ?thesis by (auto dest: comments_line_mark)
qed

text \<open>
  A call that is rejected, or answered with a status that is not a success, makes the
  step throw inside its \<open>try\<close>.
\<close>

lemma dispatch_failure:
  assumes "fetch w req = (r, w')"
    and "(\<exists>m. r = Rejected m) \<or> (\<exists>st b. r = Responded st b \<and> \<not> ok st)"
  shows "\<exists>msg. dispatch fm fetch w req fallback = (Inl msg, w')"
  using assms by (auto simp add: dispatch_def)

lemma run_step_failure:
  assumes "fetch w (step_request s step) = (r, w')"
    and "(\<exists>m. r = Rejected m) \<or> (\<exists>st b. r = Responded st b \<and> \<not> ok st)"
  shows "\<exists>msg. run_step fm fmt fetch s w step = (Inl msg, w')"
proof -
  have d: "\<exists>msg. dispatch fm fetch w (step_request s step) fallback = (Inl msg, w')" for fallback
    using assms by (rule dispatch_failure)
  show ?thesis
  proof (cases "step_type step")
    case channelStats
    from d [of "js ''Channel stats step failed.''"] channelStats show ?thesis
      by (auto simp add: run_step_def)
  next
    case searchVideos
    from d [of "js ''Search step failed.''"] searchVideos show ?thesis
      by (auto simp add: run_step_def)
  next
    case fetchComments
    from d [of "js ''Comments step failed.''"] fetchComments show ?thesis
      by (auto simp add: run_step_def)
  qed
qed

text \<open>
  A channel or comments step whose call is answered with a success status and a body
  that parses to a value other than \<open>null\<close> throws nothing inside its \<open>try\<close>, whatever
  the data are: the loop goes on to the next step.
\<close>

lemma run_step_not_caught:
  assumes "step_type step = channelStats \<or> step_type step = fetchComments"
    and "fetch w (step_request s step) = (Responded st (Inr v), w')" and "ok st" and "v \<noteq> JNull"
  shows "\<exists>u. run_step fm fmt fetch s w step = (Inr u, w')"
  using assms by (auto simp add: run_step_def dispatch_def destructure_data_def)

text \<open>
  C1. With a non-empty credential, when the steps of the workflow begin with \<open>A\<close> and
  \<open>B\<close> (any steps \<open>rest\<close>, such as a single \<open>C\<close>, coming after them), the step \<open>A\<close>
  succeeds (its \<open>try\<close> throws nothing and its line is rendered) and the step \<open>B\<close> fails
  (its \<open>try\<close> throws), the run puts on the log, above the line that announces the run,
  the success line of \<open>A\<close> and above it the failure line of \<open>B\<close>, and nothing else; the
  requests sent are those of \<open>A\<close> and \<open>B\<close>, so no step after \<open>B\<close> is dispatched.
\<close>

theorem first_failure_stops_run:
  assumes "apiKey s \<noteq> []" and "steps workflow = A # B # rest"
    and "run_step fm fmt fetch s w A = (Inr (Inr lineA), w1)"
    and "run_step fm fmt fetch s w1 B = (Inl msg, w2)"
  shows "runWorkflow fm fmt fetch s w workflow =
           (Mounted (s\<lparr>runLog :=
                [mark_cross @ js '' '' @ name workflow @ js '': '' @ msg,
                 lineA,
                 mark_running @ js '' Running workflow \"'' @ name workflow @ js ''\" ('' @
                   scheduleLabel (schedule workflow) @ js '')''] @ runLog s,
              isRunningWorkflow := False\<rparr>),
            w2, [step_request s A, step_request s B]) \<and>
         (\<exists>t. lineA = (case step_type A of channelStats \<Rightarrow> mark_check
                   | searchVideos \<Rightarrow> mark_search | fetchComments \<Rightarrow> mark_comments) @ t)"
proof
  show "runWorkflow fm fmt fetch s w workflow =
           (Mounted (s\<lparr>runLog :=
                [mark_cross @ js '' '' @ name workflow @ js '': '' @ msg,
                 lineA,
                 mark_running @ js '' Running workflow \"'' @ name workflow @ js ''\" ('' @
                   scheduleLabel (schedule workflow) @ js '')''] @ runLog s,
              isRunningWorkflow := False\<rparr>),
            w2, [step_request s A, step_request s B])"
    using assms by (simp add: runWorkflow_def Let_def)
  show "\<exists>t. lineA = (case step_type A of channelStats \<Rightarrow> mark_check
                   | searchVideos \<Rightarrow> mark_search | fetchComments \<Rightarrow> mark_comments) @ t"
    using assms(3) by (rule run_step_Inr_mark)
qed

theorem first_failure_stops_run_witness:
  "apiKey example_state \<noteq> [] \<and>
   steps (workflow_of [step_of channelStats [], step_of searchVideos [(js ''query'', js ''c'')],
                       step_of fetchComments []]) =
     [step_of channelStats [], step_of searchVideos [(js ''query'', js ''c'')],
      step_of fetchComments []] \<and>
   run_step fault_text format_number scripted example_state [channel_answer, rejected_answer]
       (step_of channelStats []) =
     (Inr (Inr (mark_check @ js '' Channel: Chan '' @ bullet @ js '' 5 subs'')), [rejected_answer]) \<and>
   run_step fault_text format_number scripted example_state [rejected_answer]
       (step_of searchVideos [(js ''query'', js ''c'')]) =
     (Inl (js ''Search query is required''), []) \<and>
   runWorkflow fault_text format_number scripted example_state [channel_answer, rejected_answer]
       (workflow_of [step_of channelStats [], step_of searchVideos [(js ''query'', js ''c'')],
                     step_of fetchComments []]) =
     (Mounted (example_state
        \<lparr>runLog := [mark_cross @ js '' Research: Search query is required'',
                    mark_check @ js '' Channel: Chan '' @ bullet @ js '' 5 subs'',
                    mark_running @ js '' Running workflow \"Research\" (Run daily)''],
         isRunningWorkflow := False\<rparr>),
      [],
      [(js ''/api/youtube/channel'',
        JObj [(js ''apiKey'', JStr (js ''AIzaSyExampleKey'')), (js ''channelId'', JStr (js ''UC1234''))]),
       (js ''/api/youtube/search'',
        JObj [(js ''apiKey'', JStr (js ''AIzaSyExampleKey'')), (js ''query'', JStr (js ''c''))])])"
proof -
  let ?A = "step_of channelStats []"
  let ?B = "step_of searchVideos [(js ''query'', js ''c'')]"
  let ?C = "step_of fetchComments []"
  have k: "apiKey example_state \<noteq> []" by (simp add: example_state_def)
  have st: "steps (workflow_of [?A, ?B, ?C]) = ?A # ?B # [?C]" by (simp add: workflow_of_def)
  have a: "run_step fault_text format_number scripted example_state [channel_answer, rejected_answer] ?A =
             (Inr (Inr (mark_check @ js '' Channel: Chan '' @ bullet @ js '' 5 subs'')),
              [rejected_answer])"
    by (simp add: run_step_def dispatch_def step_of_def ok_def destructure_data_def
          channel_answer_def format_number_def compact_def show_nat.simps js_def)
  have b: "run_step fault_text format_number scripted example_state [rejected_answer] ?B =
             (Inl (js ''Search query is required''), [])"
    by (simp add: run_step_def dispatch_def step_of_def ok_def thrown_not_ok_def rejected_answer_def)
  have l: "runLog example_state = []" "name (workflow_of [?A, ?B, ?C]) = js ''Research''"
    "schedule (workflow_of [?A, ?B, ?C]) = daily"
    by (simp_all add: example_state_def workflow_of_def)
  have ra: "step_request example_state ?A =
      (js ''/api/youtube/channel'',
        JObj [(js ''apiKey'', JStr (js ''AIzaSyExampleKey'')), (js ''channelId'', JStr (js ''UC1234''))])"
    by (simp add: step_request.simps step_of_def example_state_def config_entry_def)
  have rb: "step_request example_state ?B =
      (js ''/api/youtube/search'',
        JObj [(js ''apiKey'', JStr (js ''AIzaSyExampleKey'')), (js ''query'', JStr (js ''c''))])"
    by (simp add: step_request.simps step_of_def example_state_def config_entry_def)
  from first_failure_stops_run [OF k st a b]
  have "runWorkflow fault_text format_number scripted example_state [channel_answer, rejected_answer]
          (workflow_of [?A, ?B, ?C]) =
        (Mounted (example_state
           \<lparr>runLog :=
              [mark_cross @ js '' '' @ name (workflow_of [?A, ?B, ?C]) @ js '': '' @
                 js ''Search query is required'',
               mark_check @ js '' Channel: Chan '' @ bullet @ js '' 5 subs'',
               mark_running @ js '' Running workflow \"'' @ name (workflow_of [?A, ?B, ?C]) @
                 js ''\" ('' @ scheduleLabel (schedule (workflow_of [?A, ?B, ?C])) @ js '')''] @
              runLog example_state,
            isRunningWorkflow := False\<rparr>),
         [], [step_request example_state ?A, step_request example_state ?B])"
    by (rule conjunct1)
  then have "runWorkflow fault_text format_number scripted example_state [channel_answer, rejected_answer]
          (workflow_of [?A, ?B, ?C]) =
        (Mounted (example_state
           \<lparr>runLog := [mark_cross @ js '' Research: Search query is required'',
                    mark_check @ js '' Channel: Chan '' @ bullet @ js '' 5 subs'',
                    mark_running @ js '' Running workflow \"Research\" (Run daily)''],
            isRunningWorkflow := False\<rparr>),
         [],
         [(js ''/api/youtube/channel'',
           JObj [(js ''apiKey'', JStr (js ''AIzaSyExampleKey'')),
                 (js ''channelId'', JStr (js ''UC1234''))]),
          (js ''/api/youtube/search'',
           JObj [(js ''apiKey'', JStr (js ''AIzaSyExampleKey'')), (js ''query'', JStr (js ''c''))])])"
    unfolding l ra rb by (simp add: js_def)
  with k st a b show ?thesis by simp
qed

text \<open>
  A channel step that is answered with a success status and a body without \<open>data\<close>
  is not a failure that the \<open>catch\<close> sees: reading \<open>data.title\<close> throws in the updater,
  when React renders. The page crashes, no failure line is logged, and the step after
  it is dispatched.
\<close>

lemma unusable_data_not_caught:
  "runWorkflow fault_text format_number scripted example_state
       [Responded 200 (Inr (JObj [])), search_answer]
       (workflow_of [step_of channelStats [], step_of searchVideos []]) =
     (Crashed (fault_text (ReadOfNullish (js ''title''))), [],
      [(js ''/api/youtube/channel'',
        JObj [(js ''apiKey'', JStr (js ''AIzaSyExampleKey'')), (js ''channelId'', JStr (js ''UC1234''))]),
       (js ''/api/youtube/search'',
        JObj [(js ''apiKey'', JStr (js ''AIzaSyExampleKey'')), (js ''query'', JStr (js ''foo''))])])"
  by (simp add: runWorkflow_def run_step_def dispatch_def destructure_data_def step_request.simps
        step_of_def workflow_of_def example_state_def config_entry_def search_answer_def ok_def
        Let_def)

text \<open>
  C2. When the credential is the empty string, \<open>runWorkflow\<close> puts exactly one line,
  the warning, on the run log (at its head, where every line goes), sends no request,
  and leaves the rest of the state and the world as they were.
\<close>

theorem empty_key_refuses_run:
  assumes "apiKey s = []"
  shows "runWorkflow fm fmt fetch s w workflow =
           (Mounted (s\<lparr>runLog :=
              (mark_warning @ js '' Add an API key before running workflows.'') # runLog s\<rparr>),
            w, [])"
  using assms by (simp add: runWorkflow_def)

theorem empty_key_refuses_run_witness:
  "apiKey (example_state\<lparr>apiKey := []\<rparr>) = [] \<and>
   runWorkflow fault_text format_number scripted (example_state\<lparr>apiKey := []\<rparr>)
       [Responded 200 (Inr JNull)] (workflow_of [step_of searchVideos []]) =
     (Mounted ((example_state\<lparr>apiKey := []\<rparr>)
        \<lparr>runLog := [mark_warning @ js '' Add an API key before running workflows.'']\<rparr>),
      [Responded 200 (Inr JNull)], [])"
proof -
  have h: "apiKey (example_state\<lparr>apiKey := []\<rparr>) = []" by simp
  have l: "runLog (example_state\<lparr>apiKey := []\<rparr>) = []" by (simp add: example_state_def)
  from empty_key_refuses_run [OF h, of fault_text format_number scripted
      "[Responded 200 (Inr JNull)]" "workflow_of [step_of searchVideos []]"] h l
  show ?thesis by simp
qed

subsection \<open>The requests a run sends\<close>

lemma run_steps_sent_grows:
  "run_steps fm fmt fetch s workflow (pg, w, sent) ss = (pg', w', sent') \<Longrightarrow>
   \<exists>others. sent' = sent @ others"
proof (induction ss arbitrary: pg w sent)
  case Nil
  then show ?case by simp
next
  case (Cons step rest)
  obtain out w1 where out: "run_step fm fmt fetch s w step = (out, w1)"
    by (cases "run_step fm fmt fetch s w step")
  show ?case
  proof (cases out)
    case (Inl msg)
    with Cons.prems out show ?thesis by auto
  next
    case (Inr u)
    with Cons.prems out
    have "run_steps fm fmt fetch s workflow (setRunLog u pg, w1, sent @ [step_request s step]) rest =
            (pg', w', sent')"
      by simp
    from Cons.IH [OF this] show ?thesis by auto
  qed
qed

lemma run_steps_first_sent:
  assumes "run_steps fm fmt fetch s workflow (pg, w, sent) (step # rest) = (pg', w', sent')"
  shows "\<exists>others. sent' = sent @ step_request s step # others"
proof -
  obtain out w1 where out: "run_step fm fmt fetch s w step = (out, w1)"
    by (cases "run_step fm fmt fetch s w step")
  show ?thesis
  proof (cases out)
    case (Inl msg)
    with assms out show ?thesis by auto
  next
    case (Inr u)
    with assms out
    have "run_steps fm fmt fetch s workflow (setRunLog u pg, w1, sent @ [step_request s step]) rest =
            (pg', w', sent')"
      by simp
    from run_steps_sent_grows [OF this] show ?thesis by auto
  qed
qed

lemma run_steps_completes:
  "completes fm fmt fetch s w pre = Some w1 \<Longrightarrow>
   \<exists>pg1. run_steps fm fmt fetch s workflow (pg, w, sent) (pre @ rest) =
          run_steps fm fmt fetch s workflow (pg1, w1, sent @ map (step_request s) pre) rest"
proof (induction pre arbitrary: pg w sent)
  case Nil
  then show ?case by auto
next
  case (Cons step pre)
  obtain out w' where out: "run_step fm fmt fetch s w step = (out, w')"
    by (cases "run_step fm fmt fetch s w step")
  with Cons.prems obtain u where u: "out = Inr u" and c: "completes fm fmt fetch s w' pre = Some w1"
    by (cases out) auto
  from Cons.IH [OF c, of "setRunLog u pg" "sent @ [step_request s step]"] out u
  show ?case by auto
qed

lemma runWorkflow_reaches:
  assumes "apiKey s \<noteq> []" and "steps workflow = pre @ step # post"
    and "completes fm fmt fetch s w pre = Some w1"
  shows "\<exists>pg w' others. runWorkflow fm fmt fetch s w workflow =
           (pg, w', map (step_request s) pre @ step_request s step # others)"
proof -
  let ?pg2 = "setRunLog (Inr (mark_running @ js '' Running workflow \"'' @ name workflow @
                 js ''\" ('' @ scheduleLabel (schedule workflow) @ js '')''))
               (setIsRunningWorkflow True (Mounted s))"
  from run_steps_completes [OF assms(3), of workflow ?pg2 "[]" "step # post"] obtain pg1 where
    r: "run_steps fm fmt fetch s workflow (?pg2, w, []) (pre @ step # post) =
        run_steps fm fmt fetch s workflow (pg1, w1, map (step_request s) pre) (step # post)"
    by auto
  obtain pg3 w3 sent3 where
    e: "run_steps fm fmt fetch s workflow (pg1, w1, map (step_request s) pre) (step # post) =
        (pg3, w3, sent3)"
    by (cases "run_steps fm fmt fetch s workflow (pg1, w1, map (step_request s) pre) (step # post)")
  from run_steps_first_sent [OF e] obtain others where
    "sent3 = map (step_request s) pre @ step_request s step # others"
    by blast
  with assms(1,2) r e show ?thesis by (simp add: runWorkflow_def Let_def)
qed

text \<open>
  C3, as stated: a search step whose configuration holds the empty string as its query,
  run while the live query field holds \<open>foo\<close>, would send the query \<open>foo\<close>. It sends the
  empty string: \<open>??\<close> falls back on \<open>undefined\<close> and \<open>null\<close> only.
\<close>

theorem empty_override_counterexample:
  "searchQuery example_state = js ''foo'' \<and>
   config_entry (step_of searchVideos [(js ''query'', [])]) (js ''query'') = Some [] \<and>
   snd (snd (runWorkflow fault_text format_number scripted example_state []
               (workflow_of [step_of searchVideos [(js ''query'', [])]]))) =
     [(js ''/api/youtube/search'',
       JObj [(js ''apiKey'', JStr (js ''AIzaSyExampleKey'')), (js ''query'', JStr [])])] \<and>
   JStr [] \<noteq> JStr (js ''foo'')"
  by (simp add: runWorkflow_def run_step_def dispatch_def step_request.simps step_of_def
        workflow_of_def example_state_def config_entry_def Let_def)

text \<open>
  C3, amended. In every run with a non-empty credential that reaches a step of type
  \<open>searchVideos\<close> (no step before it throws inside its \<open>try\<close>), the runner dispatches for
  that step, after the requests of the steps before it, a call to the search endpoint
  with the credential and a query: the live query field of the page, read at run time,
  when the step's configuration has no \<open>query\<close> entry, and the entry itself when there
  is one, the empty string included.
\<close>

theorem search_step_query_dispatched:
  assumes "apiKey s \<noteq> []" and "steps workflow = pre @ step # post"
    and "step_type step = searchVideos"
    and "completes fm fmt fetch s w pre = Some w1"
  shows "\<exists>pg w' sent. runWorkflow fm fmt fetch s w workflow = (pg, w', sent) \<and>
           length pre < length sent \<and>
           take (length pre) sent = map (step_request s) pre \<and>
           (config_entry step (js ''query'') = None \<longrightarrow>
              sent ! length pre =
                (js ''/api/youtube/search'',
                 JObj [(js ''apiKey'', JStr (apiKey s)), (js ''query'', JStr (searchQuery s))])) \<and>
           (\<forall>q. config_entry step (js ''query'') = Some q \<longrightarrow>
              sent ! length pre =
                (js ''/api/youtube/search'',
                 JObj [(js ''apiKey'', JStr (apiKey s)), (js ''query'', JStr q)]))"
proof -
  from runWorkflow_reaches [OF assms(1,2,4)] obtain pg w' others where
    r: "runWorkflow fm fmt fetch s w workflow =
          (pg, w', map (step_request s) pre @ step_request s step # others)"
    by blast
  let ?sent = "map (step_request s) pre @ step_request s step # others"
  have n: "?sent ! length pre = step_request s step"
    by (simp add: nth_append)
  have "length pre < length ?sent" "take (length pre) ?sent = map (step_request s) pre"
    by simp_all
  moreover have "config_entry step (js ''query'') = None \<longrightarrow>
      ?sent ! length pre =
        (js ''/api/youtube/search'',
         JObj [(js ''apiKey'', JStr (apiKey s)), (js ''query'', JStr (searchQuery s))])"
    unfolding n using assms(3) by (simp add: step_request.simps)
  moreover have "\<forall>q. config_entry step (js ''query'') = Some q \<longrightarrow>
      ?sent ! length pre =
        (js ''/api/youtube/search'',
         JObj [(js ''apiKey'', JStr (apiKey s)), (js ''query'', JStr q)])"
    unfolding n using assms(3) by (simp add: step_request.simps)
  ultimately have "runWorkflow fm fmt fetch s w workflow = (pg, w', ?sent) \<and>
           length pre < length ?sent \<and>
           take (length pre) ?sent = map (step_request s) pre \<and>
           (config_entry step (js ''query'') = None \<longrightarrow>
              ?sent ! length pre =
                (js ''/api/youtube/search'',
                 JObj [(js ''apiKey'', JStr (apiKey s)), (js ''query'', JStr (searchQuery s))])) \<and>
           (\<forall>q. config_entry step (js ''query'') = Some q \<longrightarrow>
              ?sent ! length pre =
                (js ''/api/youtube/search'',
                 JObj [(js ''apiKey'', JStr (apiKey s)), (js ''query'', JStr q)]))"
    using r by (intro conjI) assumption+
  then show ?thesis by (intro exI)
qed

theorem search_step_query_dispatched_witness:
  "apiKey example_state \<noteq> [] \<and>
   steps (workflow_of [step_of channelStats [], step_of searchVideos [],
                       step_of searchVideos [(js ''query'', js ''bar'')]]) =
     [step_of channelStats []] @ step_of searchVideos [] #
       [step_of searchVideos [(js ''query'', js ''bar'')]] \<and>
   step_type (step_of searchVideos []) = searchVideos \<and>
   completes fault_text format_number scripted example_state [channel_answer, search_answer]
     [step_of channelStats []] = Some [search_answer] \<and>
   config_entry (step_of searchVideos []) (js ''query'') = None \<and>
   steps (workflow_of [step_of channelStats [], step_of searchVideos [],
                       step_of searchVideos [(js ''query'', js ''bar'')]]) =
     [step_of channelStats [], step_of searchVideos []] @
       step_of searchVideos [(js ''query'', js ''bar'')] # [] \<and>
   step_type (step_of searchVideos [(js ''query'', js ''bar'')]) = searchVideos \<and>
   completes fault_text format_number scripted example_state [channel_answer, search_answer]
     [step_of channelStats [], step_of searchVideos []] = Some [] \<and>
   config_entry (step_of searchVideos [(js ''query'', js ''bar'')]) (js ''query'') =
     Some (js ''bar'') \<and>
   searchQuery example_state = js ''foo'' \<and>
   2 < length (snd (snd (runWorkflow fault_text format_number scripted example_state
         [channel_answer, search_answer]
         (workflow_of [step_of channelStats [], step_of searchVideos [],
                       step_of searchVideos [(js ''query'', js ''bar'')]])))) \<and>
   snd (snd (runWorkflow fault_text format_number scripted example_state
         [channel_answer, search_answer]
         (workflow_of [step_of channelStats [], step_of searchVideos [],
                       step_of searchVideos [(js ''query'', js ''bar'')]]))) ! 1 =
     (js ''/api/youtube/search'',
      JObj [(js ''apiKey'', JStr (js ''AIzaSyExampleKey'')), (js ''query'', JStr (js ''foo''))]) \<and>
   snd (snd (runWorkflow fault_text format_number scripted example_state
         [channel_answer, search_answer]
         (workflow_of [step_of channelStats [], step_of searchVideos [],
                       step_of searchVideos [(js ''query'', js ''bar'')]]))) ! 2 =
     (js ''/api/youtube/search'',
      JObj [(js ''apiKey'', JStr (js ''AIzaSyExampleKey'')), (js ''query'', JStr (js ''bar''))])"
proof -
  let ?A = "step_of channelStats []"
  let ?B = "step_of searchVideos []"
  let ?C = "step_of searchVideos [(js ''query'', js ''bar'')]"
  let ?W = "workflow_of [?A, ?B, ?C]"
  let ?run = "runWorkflow fault_text format_number scripted example_state
                [channel_answer, search_answer] ?W"
  have k: "apiKey example_state \<noteq> []" "apiKey example_state = js ''AIzaSyExampleKey''"
    "searchQuery example_state = js ''foo''"
    by (simp_all add: example_state_def)
  have s1: "steps ?W = [?A] @ ?B # [?C]" and s2: "steps ?W = [?A, ?B] @ ?C # []"
    by (simp_all add: workflow_of_def)
  have t1: "step_type ?B = searchVideos" and t2: "step_type ?C = searchVideos"
    by (simp_all add: step_of_def)
  have a: "run_step fault_text format_number scripted example_state
             [channel_answer, search_answer] ?A =
           (Inr (format_line_of_channel), [search_answer])"
    if "format_line_of_channel = channel_line fault_text format_number
          (Some (JObj [(js ''title'', JStr (js ''Chan'')), (js ''subscriberCount'', JNum 5)]))"
    for format_line_of_channel
    using that
    by (simp add: run_step_def dispatch_def step_of_def ok_def destructure_data_def
          channel_answer_def)
  have b: "\<exists>u. run_step fault_text format_number scripted example_state [search_answer] ?B =
             (Inr u, [])"
    by (simp add: run_step_def dispatch_def step_of_def ok_def destructure_data_def
          search_answer_def)
  have c1: "completes fault_text format_number scripted example_state
              [channel_answer, search_answer] [?A] = Some [search_answer]"
    using a by simp
  have c2: "completes fault_text format_number scripted example_state
              [channel_answer, search_answer] [?A, ?B] = Some []"
    using a b by auto
  have e1: "config_entry ?B (js ''query'') = None"
    and e2: "config_entry ?C (js ''query'') = Some (js ''bar'')"
    by (simp_all add: config_entry_def step_of_def)
  from search_step_query_dispatched [OF k(1) s1 t1 c1] e1
  obtain pg w' sent where r1: "?run = (pg, w', sent)"
    and n1: "sent ! length [?A] =
      (js ''/api/youtube/search'',
       JObj [(js ''apiKey'', JStr (apiKey example_state)),
             (js ''query'', JStr (searchQuery example_state))])"
    by blast
  from search_step_query_dispatched [OF k(1) s2 t2 c2] e2
  obtain pg2 w2 sent2 where r2: "?run = (pg2, w2, sent2)"
    and l2: "length [?A, ?B] < length sent2"
    and n2: "sent2 ! length [?A, ?B] =
      (js ''/api/youtube/search'',
       JObj [(js ''apiKey'', JStr (apiKey example_state)), (js ''query'', JStr (js ''bar''))])"
    by blast
  from r1 r2 have eq: "sent2 = sent" by simp
  have f1: "snd (snd ?run) ! 1 =
      (js ''/api/youtube/search'',
       JObj [(js ''apiKey'', JStr (js ''AIzaSyExampleKey'')), (js ''query'', JStr (js ''foo''))])"
    using n1 unfolding r1 k(2,3) by simp
  have f2: "snd (snd ?run) ! 2 =
      (js ''/api/youtube/search'',
       JObj [(js ''apiKey'', JStr (js ''AIzaSyExampleKey'')), (js ''query'', JStr (js ''bar''))])"
    using n2 unfolding r2 k(2) by (simp add: numeral_2_eq_2)
  have f3: "2 < length (snd (snd ?run))"
    using l2 unfolding r2 by simp
  from k(1) s1 t1 c1 e1 s2 t2 c2 e2 k(3) f3 f1 f2 show ?thesis
    by (intro conjI)
qed
section \<open>JSON text: what is written is read back\<close>

subsection \<open>Strings\<close>

lemma upt_16: "[0..<16] = [0, 1, 2, 3, 4, 5, 6, 7, 8, 9, 10, 11, 12, 13, 14, 15 :: nat]"
  by code_simp

lemma hex_value_hex_digit: "d < 16 \<Longrightarrow> hex_value (hex_digit d) = Some d"
proof -
  assume "d < 16"
  then have "d \<in> set [0..<16]" by simp
  then have "d \<in> set [0, 1, 2, 3, 4, 5, 6, 7, 8, 9, 10, 11, 12, 13, 14, 15 :: nat]"
    by (simp only: upt_16)
  then show ?thesis
    by (auto simp add: hex_digit_def hex_value_def)
qed

lemma hex_places:
  fixes n :: nat
  assumes "n < 65536"
  shows "n div 4096 < 16"
    and "((n div 4096 * 16 + n div 256 mod 16) * 16 + n div 16 mod 16) * 16 + n mod 16 = n"
proof -
  from assms show "n div 4096 < 16" by simp
  have a: "n div 256 = n div 16 div 16" and b: "n div 4096 = n div 16 div 16 div 16"
    by (simp_all add: div_mult2_eq)
  show "((n div 4096 * 16 + n div 256 mod 16) * 16 + n div 16 mod 16) * 16 + n mod 16 = n"
    unfolding a b by (simp only: div_mult_mod_eq)
qed


lemma unicode_escape_hex:
  "unicode_escape (hex_digit (unat c div 4096) # hex_digit (unat c div 256 mod 16) #
     hex_digit (unat c div 16 mod 16) # hex_digit (unat c mod 16) # r) = Some (c, r)"
proof -
  have n: "unat c < 65536" using unsigned_less [of c, where ?'a = nat] by simp
  from hex_places [OF n] show ?thesis
    by (simp add: hex_value_hex_digit)
qed

declare unicode_escape.simps [simp del]

lemma surrogate_not_special:
  assumes "is_high c \<or> is_low c"
  shows "c \<noteq> 0x22" and "c \<noteq> 0x5C" and "\<not> c < 0x20"
  using assms by (auto simp add: is_high_def is_low_def word_le_nat_alt word_less_nat_alt)

lemma parse_chars_raw:
  "c \<noteq> 0x22 \<Longrightarrow> c \<noteq> 0x5C \<Longrightarrow> \<not> c < 0x20 \<Longrightarrow> parse_chars n rest0 = Some (s, r) \<Longrightarrow>
   parse_chars (Suc n) (c # rest0) = Some (c # s, r)"
  by (simp add: parse_chars.simps)

lemma parse_chars_escape_unit:
  assumes "parse_chars n rest0 = Some (s, r)"
  shows "parse_chars (Suc n) (escape_unit c @ rest0) = Some (c # s, r)"
  using assms
  by (simp add: escape_unit_def escape_u_def unescape_def unicode_escape_hex parse_chars.simps)

declare parse_chars.simps [simp del]

lemma parse_chars_quote_units:
  "length s < n \<Longrightarrow> parse_chars n (quote_units s @ 0x22 # rest) = Some (s, rest)"
proof (induction s arbitrary: n rule: quote_units.induct)
  case 1
  then obtain m where "n = Suc m" by (cases n) auto
  then show ?case by (simp add: parse_chars.simps)
next
  case (2 c)
  then obtain m where n: "n = Suc (Suc m)" by (cases n; cases "n - 1") auto
  have "parse_chars (Suc m) (0x22 # rest) = Some ([], rest)" by (simp add: parse_chars.simps)
  from parse_chars_escape_unit [OF this] n show ?case by simp
next
  case (3 c d cs)
  from "3.prems" obtain m where n: "n = Suc (Suc m)" and m: "length cs < m"
    by (cases n; cases "n - 1") auto
  show ?case
  proof (cases "is_high c \<and> is_low d")
    case True
    from True surrogate_not_special [of c] surrogate_not_special [of d]
    have c: "c \<noteq> 0x22" "c \<noteq> 0x5C" "\<not> c < 0x20" and d: "d \<noteq> 0x22" "d \<noteq> 0x5C" "\<not> d < 0x20"
      by blast+
    from "3.IH"(1) [OF True m]
    have "parse_chars m (quote_units cs @ 0x22 # rest) = Some (cs, rest)" .
    from parse_chars_raw [OF c parse_chars_raw [OF d this]]
    have "parse_chars (Suc (Suc m)) (c # d # quote_units cs @ 0x22 # rest) =
            Some (c # d # cs, rest)" .
    moreover have "quote_units (c # d # cs) = c # d # quote_units cs"
      using True by simp
    ultimately show ?thesis unfolding n by simp
  next
    case False
    from m have "length (d # cs) < Suc m" by simp
    from "3.IH"(2) [OF False this]
    have "parse_chars (Suc m) (quote_units (d # cs) @ 0x22 # rest) = Some (d # cs, rest)" .
    then have "parse_chars (Suc (Suc m)) (escape_unit c @ quote_units (d # cs) @ 0x22 # rest) =
                 Some (c # d # cs, rest)"
      by (rule parse_chars_escape_unit)
    moreover have "quote_units (c # d # cs) = escape_unit c @ quote_units (d # cs)"
      using False by auto
    ultimately show ?thesis unfolding n by simp
  qed
qed

lemma length_escape_unit: "1 \<le> length (escape_unit c)"
  by (simp add: escape_unit_def escape_u_def)

lemma length_quote_units: "length s \<le> length (quote_units s)"
proof (induction s rule: quote_units.induct)
  case 1
  show ?case by simp
next
  case (2 c)
  from length_escape_unit [of c] show ?case by simp
next
  case (3 c d cs)
  from length_escape_unit [of c] 3 show ?case by (cases "is_high c \<and> is_low d") auto
qed

lemma parse_chars_QuoteJSONString:
  "QuoteJSONString s @ rest = 0x22 # cs \<Longrightarrow> parse_chars (length cs) cs = Some (s, rest)"
proof -
  assume "QuoteJSONString s @ rest = 0x22 # cs"
  then have cs: "cs = quote_units s @ 0x22 # rest" by (simp add: QuoteJSONString_def)
  have "length s < length cs" unfolding cs using length_quote_units [of s] by simp
  then show ?thesis unfolding cs by (rule parse_chars_quote_units)
qed
subsection \<open>Numbers\<close>

lemma upt_10: "[0..<10] = [0, 1, 2, 3, 4, 5, 6, 7, 8, 9 :: nat]"
  by code_simp

lemma digit_char:
  assumes "d < 10"
  shows "is_digit (of_char (''0123456789'' ! d))"
    and "unat (of_char (''0123456789'' ! d) :: 16 word) - 0x30 = d"
    and "(of_char (''0123456789'' ! d) :: 16 word) \<noteq> 0x2D"
    and "0 < d \<Longrightarrow> (of_char (''0123456789'' ! d) :: 16 word) \<noteq> 0x30"
proof -
  from assms have "d \<in> set [0..<10]" by simp
  then have d: "d \<in> set [0, 1, 2, 3, 4, 5, 6, 7, 8, 9 :: nat]"
    by (simp only: upt_10)
  from d show "is_digit (of_char (''0123456789'' ! d))"
    by (auto simp add: is_digit_def)
  from d show "unat (of_char (''0123456789'' ! d) :: 16 word) - 0x30 = d"
    by auto
  from d show "(of_char (''0123456789'' ! d) :: 16 word) \<noteq> 0x2D"
    by auto
  from d show "0 < d \<Longrightarrow> (of_char (''0123456789'' ! d) :: 16 word) \<noteq> 0x30"
    by auto
qed

lemma show_nat_small: "n < 10 \<Longrightarrow> show_nat n = [''0123456789'' ! n]"
  by (simp add: show_nat.simps)

lemma show_nat_large:
  "\<not> n < 10 \<Longrightarrow> show_nat n = show_nat (n div 10) @ [''0123456789'' ! (n mod 10)]"
  by (subst show_nat.simps) simp

lemma read_digits_digit:
  "d < 10 \<Longrightarrow> read_digits acc (of_char (''0123456789'' ! d) # r) = read_digits (acc * 10 + d) r"
  by (simp add: digit_char(1,2))

lemma read_digits_show_nat:
  "read_digits acc (js (show_nat n) @ r) = read_digits (acc * 10 ^ length (show_nat n) + n) r"
proof (induction n arbitrary: acc r rule: show_nat.induct)
  case (1 n)
  show ?case
  proof (cases "n < 10")
    case True
    then show ?thesis by (simp add: show_nat_small js_def read_digits_digit del: read_digits.simps)
  next
    case False
    have m: "n mod 10 < 10" by simp
    have "read_digits acc (js (show_nat n) @ r) =
          read_digits acc (js (show_nat (n div 10)) @ of_char (''0123456789'' ! (n mod 10)) # r)"
      by (simp add: show_nat_large [OF False] js_def)
    also have "\<dots> = read_digits (acc * 10 ^ length (show_nat (n div 10)) + n div 10)
                       (of_char (''0123456789'' ! (n mod 10)) # r)"
      by (rule "1.IH" [OF False])
    also have "\<dots> = read_digits ((acc * 10 ^ length (show_nat (n div 10)) + n div 10) * 10 + n mod 10) r"
      by (rule read_digits_digit [OF m])
    also have "(acc * 10 ^ length (show_nat (n div 10)) + n div 10) * 10 + n mod 10 =
               acc * 10 ^ length (show_nat n) + n"
      by (simp add: show_nat_large [OF False] algebra_simps)
    finally show ?thesis .
  qed
qed

lemma read_digits_stop:
  "\<forall>c cs. r = c # cs \<longrightarrow> \<not> is_digit c \<Longrightarrow> read_digits a r = (a, r)"
  by (cases r) auto

lemma show_nat_first:
  "\<exists>d cs. show_nat n = (''0123456789'' ! d) # cs \<and> d < 10 \<and> (0 < n \<longrightarrow> 0 < d)"
proof (induction n rule: show_nat.induct)
  case (1 n)
  show ?case
  proof (cases "n < 10")
    case True
    then show ?thesis by (auto simp add: show_nat_small)
  next
    case False
    from "1.IH" [OF False] obtain d cs where
      "show_nat (n div 10) = (''0123456789'' ! d) # cs" "d < 10" "0 < n div 10 \<longrightarrow> 0 < d"
      by auto
    moreover from False have "0 < n div 10" by simp
    ultimately have "show_nat n =
        (''0123456789'' ! d) # (cs @ [''0123456789'' ! (n mod 10)]) \<and> d < 10 \<and> (0 < n \<longrightarrow> 0 < d)"
      by (simp only: show_nat_large [OF False] append_Cons simp_thms)
    then show ?thesis by (intro exI)
  qed
qed

lemma parse_int_show_nat:
  assumes "\<forall>c cs. r = c # cs \<longrightarrow> \<not> is_digit c"
  shows "parse_int (js (show_nat n) @ r) = Some (n, r)"
proof (cases "n = 0")
  case True
  then show ?thesis by (simp add: show_nat_small js_def)
next
  case False
  from show_nat_first [of n] False obtain d cs where
    s: "show_nat n = (''0123456789'' ! d) # cs" and d: "d < 10" "0 < d"
    by auto
  let ?c = "of_char (''0123456789'' ! d) :: 16 word"
  have j: "js (show_nat n) @ r = ?c # js cs @ r" by (simp add: s js_def)
  have "parse_int (js (show_nat n) @ r) = Some (read_digits (unat ?c - 0x30) (js cs @ r))"
    unfolding j using digit_char(1,4) [OF d(1)] d(2) by simp
  also have "read_digits (unat ?c - 0x30) (js cs @ r) = read_digits 0 (js (show_nat n) @ r)"
    unfolding j using digit_char(1) [OF d(1)] by simp
  also have "\<dots> = read_digits n r" by (simp add: read_digits_show_nat)
  also have "\<dots> = (n, r)" using assms by (rule read_digits_stop)
  finally show ?thesis .
qed

lemma separator_not_digit:
  "\<forall>c cs. r = c # cs \<longrightarrow> c \<in> {0x2C, 0x5D, 0x7D} \<Longrightarrow> \<forall>c cs. r = c # cs \<longrightarrow> \<not> is_digit c"
  by (auto simp add: is_digit_def)

lemma after_int_separator:
  "\<forall>c cs. r = c # cs \<longrightarrow> c \<in> {0x2C, 0x5D, 0x7D} \<Longrightarrow> after_int i r = Some (JNum i, r)"
  by (cases r) (auto simp add: after_int_def)

lemma parse_number_show_int:
  assumes "\<forall>c cs. r = c # cs \<longrightarrow> c \<in> {0x2C, 0x5D, 0x7D}"
  shows "parse_number (js (show_int i) @ r) = Some (JNum i, r)"
proof (cases "i < 0")
  case True
  then have "js (show_int i) @ r = 0x2D # js (show_nat (nat (- i))) @ r"
    by (simp add: show_int_def js_def)
  then show ?thesis
    using True
    by (simp add: parse_number_def parse_int_show_nat [OF separator_not_digit [OF assms]]
          after_int_separator [OF assms])
next
  case False
  from show_nat_first [of "nat i"] obtain d cs where
    s: "show_nat (nat i) = (''0123456789'' ! d) # cs" and d: "d < 10"
    by auto
  have j: "js (show_int i) @ r = of_char (''0123456789'' ! d) # js cs @ r"
    using False by (simp add: show_int_def s js_def)
  have pn: "parse_number (js (show_int i) @ r) =
        (case parse_int (js (show_int i) @ r) of None \<Rightarrow> None
         | Some (n, r') \<Rightarrow> after_int (int n) r')"
    unfolding j using digit_char(3) [OF d] by (simp add: parse_number_def)
  have e: "js (show_int i) = js (show_nat (nat i))"
    using False by (simp add: show_int_def)
  have p: "parse_int (js (show_nat (nat i)) @ r) = Some (nat i, r)"
    by (rule parse_int_show_nat [OF separator_not_digit [OF assms]])
  show ?thesis
    unfolding pn unfolding e p using False by (simp add: after_int_separator [OF assms])
qed
subsection \<open>Values\<close>

lemma intercalate_Cons:
  "xs \<noteq> [] \<Longrightarrow> intercalate sep (x # xs) = x @ sep @ intercalate sep xs"
  by (cases xs) simp_all

lemma QuoteJSONString_Cons: "QuoteJSONString s = 0x22 # quote_units s @ [0x22]"
  by (simp add: QuoteJSONString_def)

text \<open>What \<open>JSON.stringify\<close> makes begins with a character that begins a value.\<close>

lemma show_int_first: "\<exists>c cs. js (show_int i) = c # cs \<and> (c = 0x2D \<or> is_digit c)"
proof (cases "i < 0")
  case True
  then show ?thesis by (simp add: show_int_def js_def)
next
  case False
  from show_nat_first [of "nat i"] obtain d cs where
    "show_nat (nat i) = (''0123456789'' ! d) # cs" "d < 10"
    by auto
  with False digit_char(1) [of d] show ?thesis by (simp add: show_int_def js_def)
qed

lemma JSON_stringify_first:
  "\<exists>c cs. JSON_stringify v = c # cs \<and>
     (c \<in> {0x22, 0x5B, 0x7B, 0x6E, 0x74, 0x66, 0x2D} \<or> is_digit c)"
proof (cases v)
  case (JNum i)
  with show_int_first [of i] show ?thesis by auto
qed (simp_all add: js_def QuoteJSONString_def)

lemma JSON_stringify_not_empty: "JSON_stringify v \<noteq> []"
  using JSON_stringify_first [of v] by auto

lemma skip_ws_first:
  "c \<in> {0x22, 0x5B, 0x7B, 0x6E, 0x74, 0x66, 0x2D, 0x2C, 0x5D, 0x7D, 0x3A} \<or> is_digit c \<Longrightarrow>
   skip_ws (c # cs) = c # cs"
  by (auto simp add: is_digit_def)

lemma skip_ws_JSON_stringify: "skip_ws (JSON_stringify v @ r) = JSON_stringify v @ r"
proof -
  from JSON_stringify_first [of v] obtain c cs where
    "JSON_stringify v = c # cs" "c \<in> {0x22, 0x5B, 0x7B, 0x6E, 0x74, 0x66, 0x2D} \<or> is_digit c"
    by blast
  then show ?thesis using skip_ws_first [of c "cs @ r"] by auto
qed

lemma JSON_stringify_not_closing:
  "JSON_stringify v @ r = c # cs \<Longrightarrow> c \<noteq> 0x5D \<and> c \<noteq> 0x7D"
  using JSON_stringify_first [of v] by (auto simp add: is_digit_def)

lemma parse_value_string:
  "parse_value (Suc n) (0x22 # cs) =
     (case parse_chars (length cs) cs of None \<Rightarrow> None | Some (str, r) \<Rightarrow> Some (JStr str, r))"
  by simp

lemma parse_value_empty_array: "parse_value (Suc n) (0x5B # 0x5D # r) = Some (JArr [], r)"
  by simp

lemma parse_value_empty_object: "parse_value (Suc n) (0x7B # 0x7D # r) = Some (JObj [], r)"
  by simp

lemma parse_value_array:
  "skip_ws cs = d # ds \<Longrightarrow> d \<noteq> 0x5D \<Longrightarrow>
   parse_value (Suc n) (0x5B # cs) =
     (case parse_elements n cs of None \<Rightarrow> None | Some (xs, r) \<Rightarrow> Some (JArr xs, r))"
  by simp

lemma parse_value_object:
  "skip_ws cs = d # ds \<Longrightarrow> d \<noteq> 0x7D \<Longrightarrow>
   parse_value (Suc n) (0x7B # cs) =
     (case parse_members n cs of None \<Rightarrow> None | Some (kvs, r) \<Rightarrow> Some (JObj kvs, r))"
  by simp

lemma parse_value_literals:
  "parse_value (Suc n) (js ''null'' @ r) = Some (JNull, r)"
  "parse_value (Suc n) (js ''true'' @ r) = Some (JBool True, r)"
  "parse_value (Suc n) (js ''false'' @ r) = Some (JBool False, r)"
  by (simp_all add: js_def literal_def)

lemma parse_value_number:
  assumes "c = 0x2D \<or> is_digit c"
  shows "parse_value (Suc n) (c # cs) = parse_number (c # cs)"
  using assms by (auto simp add: is_digit_def)

lemma parse_elements_step:
  "parse_value n s = Some (x, 0x2C # cs) \<Longrightarrow>
   parse_elements (Suc n) s =
     (case parse_elements n cs of None \<Rightarrow> None | Some (xs, r') \<Rightarrow> Some (x # xs, r'))"
  "parse_value n s = Some (x, 0x5D # cs) \<Longrightarrow> parse_elements (Suc n) s = Some ([x], cs)"
  by simp_all

lemma parse_members_step:
  assumes "parse_chars (length cs) cs = Some (k, 0x3A # r1)"
  shows "parse_value n r1 = Some (v, 0x2C # r3) \<Longrightarrow>
         parse_members (Suc n) (0x22 # cs) =
           (case parse_members n r3 of None \<Rightarrow> None | Some (kvs, r') \<Rightarrow> Some ((k, v) # kvs, r'))"
    and "parse_value n r1 = Some (v, 0x7D # r3) \<Longrightarrow>
         parse_members (Suc n) (0x22 # cs) = Some ([(k, v)], r3)"
  using assms by simp_all

declare parse_value.simps [simp del] parse_elements.simps [simp del]
  parse_members.simps [simp del]

lemma parse_elements_stringify:
  assumes "xs \<noteq> []"
    and "\<And>x n r. x \<in> set xs \<Longrightarrow> length (JSON_stringify x) \<le> n \<Longrightarrow>
           \<forall>c cs. r = c # cs \<longrightarrow> c \<in> {0x2C, 0x5D, 0x7D} \<Longrightarrow>
           parse_value n (JSON_stringify x @ r) = Some (x, r)"
    and "length (intercalate [0x2C] (map JSON_stringify xs)) < n"
  shows "parse_elements n (intercalate [0x2C] (map JSON_stringify xs) @ 0x5D # r) = Some (xs, r)"
  using assms
proof (induction xs arbitrary: n rule: list_nonempty_induct)
  case (single x)
  from single.prems(2) obtain m where n: "n = Suc m" and m: "length (JSON_stringify x) \<le> m"
    by (cases n) auto
  have "parse_value m (JSON_stringify x @ 0x5D # r) = Some (x, 0x5D # r)"
    by (rule single.prems(1) [OF _ m]) simp_all
  then show ?case unfolding n by (simp add: parse_elements_step(2))
next
  case (cons x xs)
  let ?rest = "intercalate [0x2C] (map JSON_stringify xs)"
  from cons.hyps have i: "intercalate [0x2C] (map JSON_stringify (x # xs)) =
      JSON_stringify x @ 0x2C # ?rest"
    by (simp add: intercalate_Cons)
  from cons.prems(2) obtain m where n: "n = Suc m" and m: "length (JSON_stringify x) \<le> m"
    and m': "length ?rest < m"
    unfolding i by (cases n) auto
  have "parse_value m (JSON_stringify x @ 0x2C # ?rest @ 0x5D # r) =
          Some (x, 0x2C # ?rest @ 0x5D # r)"
    by (rule cons.prems(1) [OF _ m]) simp_all
  moreover have "parse_elements m (?rest @ 0x5D # r) = Some (xs, r)"
    by (rule cons.IH [OF _ m']) (rule cons.prems(1), simp_all)
  ultimately show ?case unfolding n i by (simp add: parse_elements_step(1))
qed

lemma parse_members_stringify:
  assumes "kvs \<noteq> []"
    and "\<And>k v n r. (k, v) \<in> set kvs \<Longrightarrow> length (JSON_stringify v) \<le> n \<Longrightarrow>
           \<forall>c cs. r = c # cs \<longrightarrow> c \<in> {0x2C, 0x5D, 0x7D} \<Longrightarrow>
           parse_value n (JSON_stringify v @ r) = Some (v, r)"
    and "length (intercalate [0x2C]
           (map (\<lambda>kv. QuoteJSONString (fst kv) @ 0x3A # JSON_stringify (snd kv)) kvs)) < n"
  shows "parse_members n (intercalate [0x2C]
           (map (\<lambda>kv. QuoteJSONString (fst kv) @ 0x3A # JSON_stringify (snd kv)) kvs) @ 0x7D # r) =
         Some (kvs, r)"
  using assms
proof (induction kvs arbitrary: n rule: list_nonempty_induct)
  case (single kv)
  let ?k = "fst kv" and ?v = "snd kv"
  from single.prems(2) obtain m where n: "n = Suc m" and m: "length (JSON_stringify ?v) \<le> m"
    by (cases n) auto
  let ?cs = "quote_units ?k @ 0x22 # 0x3A # JSON_stringify ?v @ 0x7D # r"
  have t: "intercalate [0x2C]
             (map (\<lambda>kv. QuoteJSONString (fst kv) @ 0x3A # JSON_stringify (snd kv)) [kv]) @ 0x7D # r =
           0x22 # ?cs"
    by (simp add: QuoteJSONString_def)
  have "length ?k < length ?cs" using length_quote_units [of ?k] by simp
  then have c: "parse_chars (length ?cs) ?cs = Some (?k, 0x3A # JSON_stringify ?v @ 0x7D # r)"
    by (rule parse_chars_quote_units)
  have "parse_value m (JSON_stringify ?v @ 0x7D # r) = Some (?v, 0x7D # r)"
    by (rule single.prems(1) [of "fst kv" "snd kv", OF _ m]) simp_all
  from parse_members_step(2) [OF c this]
  have "parse_members (Suc m) (0x22 # ?cs) = Some ([kv], r)" by simp
  then show ?case unfolding t n .
next
  case (cons kv kvs)
  let ?k = "fst kv" and ?v = "snd kv"
  let ?rest = "intercalate [0x2C]
                 (map (\<lambda>kv. QuoteJSONString (fst kv) @ 0x3A # JSON_stringify (snd kv)) kvs)"
  let ?cs = "quote_units ?k @ 0x22 # 0x3A # JSON_stringify ?v @ 0x2C # ?rest @ 0x7D # r"
  from cons.hyps have t: "intercalate [0x2C]
             (map (\<lambda>kv. QuoteJSONString (fst kv) @ 0x3A # JSON_stringify (snd kv)) (kv # kvs)) @
             0x7D # r = 0x22 # ?cs"
    by (simp add: QuoteJSONString_def intercalate_Cons)
  from cons.hyps have l: "length (intercalate [0x2C]
             (map (\<lambda>kv. QuoteJSONString (fst kv) @ 0x3A # JSON_stringify (snd kv)) (kv # kvs))) =
           length (quote_units ?k) + length (JSON_stringify ?v) + length ?rest + 4"
    by (simp add: QuoteJSONString_def intercalate_Cons)
  from cons.prems(2) obtain m where n: "n = Suc m" and m: "length (JSON_stringify ?v) \<le> m"
    and m': "length ?rest < m"
    unfolding l by (cases n) auto
  have "length ?k < length ?cs" using length_quote_units [of ?k] by simp
  then have c: "parse_chars (length ?cs) ?cs =
      Some (?k, 0x3A # JSON_stringify ?v @ 0x2C # ?rest @ 0x7D # r)"
    by (rule parse_chars_quote_units)
  have v: "parse_value m (JSON_stringify ?v @ 0x2C # ?rest @ 0x7D # r) =
          Some (?v, 0x2C # ?rest @ 0x7D # r)"
    by (rule cons.prems(1) [of "fst kv" "snd kv", OF _ m]) simp_all
  have "parse_members m (?rest @ 0x7D # r) = Some (kvs, r)"
  proof (rule cons.IH [OF _ m'])
    fix k v n and r :: jstring
    assume "(k, v) \<in> set kvs" and "length (JSON_stringify v) \<le> n"
      and "\<forall>c cs. r = c # cs \<longrightarrow> c \<in> {0x2C, 0x5D, 0x7D}"
    then show "parse_value n (JSON_stringify v @ r) = Some (v, r)"
      by (intro cons.prems(1) [of k v]) simp_all
  qed
  with parse_members_step(1) [OF c v]
  have "parse_members (Suc m) (0x22 # ?cs) = Some (kv # kvs, r)" by simp
  then show ?case unfolding t n .
qed

lemma parse_value_JSON_stringify:
  "length (JSON_stringify v) \<le> n \<Longrightarrow> \<forall>c cs. r = c # cs \<longrightarrow> c \<in> {0x2C, 0x5D, 0x7D} \<Longrightarrow>
   parse_value n (JSON_stringify v @ r) = Some (v, r)"
proof (induction v arbitrary: n r)
  case JNull
  then obtain m where "n = Suc m" by (cases n) auto
  then show ?case by (simp add: parse_value_literals)
next
  case (JBool b)
  then obtain m where "n = Suc m" by (cases n) (auto split: if_splits)
  then show ?case by (simp add: parse_value_literals)
next
  case (JNum i)
  with JSON_stringify_not_empty [of "JNum i"] obtain m where n: "n = Suc m" by (cases n) auto
  from show_int_first [of i] obtain c cs where
    s: "js (show_int i) = c # cs" and c: "c = 0x2D \<or> is_digit c"
    by blast
  have "parse_value (Suc m) (js (show_int i) @ r) = parse_number (js (show_int i) @ r)"
    unfolding s using parse_value_number [OF c] by simp
  with JNum.prems(2) show ?case unfolding n by (simp add: parse_number_show_int)
next
  case (JStr s)
  with JSON_stringify_not_empty [of "JStr s"] obtain m where n: "n = Suc m" by (cases n) auto
  let ?cs = "quote_units s @ 0x22 # r"
  have "length s < length ?cs" using length_quote_units [of s] by simp
  then have "parse_chars (length ?cs) ?cs = Some (s, r)" by (rule parse_chars_quote_units)
  then show ?case unfolding n by (simp add: QuoteJSONString_def parse_value_string)
next
  case (JArr xs)
  from JArr.prems(1) obtain m where n: "n = Suc m"
    and m: "length (intercalate [0x2C] (map JSON_stringify xs)) < m"
    by (cases n) auto
  show ?case
  proof (cases "xs = []")
    case True
    then show ?thesis unfolding n by (simp add: parse_value_empty_array)
  next
    case False
    let ?cs = "intercalate [0x2C] (map JSON_stringify xs) @ 0x5D # r"
    from False obtain x ys where xs: "xs = x # ys" by (cases xs) auto
    have "\<exists>t. ?cs = JSON_stringify x @ t"
      unfolding xs by (cases ys) simp_all
    then obtain t where t: "?cs = JSON_stringify x @ t" by blast
    from JSON_stringify_first [of x] obtain d ds where d: "JSON_stringify x @ t = d # ds"
      by auto
    from JSON_stringify_not_closing [OF d] have "d \<noteq> 0x5D" by simp
    moreover have "skip_ws ?cs = d # ds"
      unfolding t using d skip_ws_JSON_stringify [of x t] by simp
    ultimately have "parse_value (Suc m) (0x5B # ?cs) =
        (case parse_elements m ?cs of None \<Rightarrow> None | Some (xs, r) \<Rightarrow> Some (JArr xs, r))"
      by (rule parse_value_array [rotated])
    moreover have "parse_elements m ?cs = Some (xs, r)"
      using False JArr.IH m by (rule parse_elements_stringify)
    ultimately show ?thesis unfolding n by simp
  qed
next
  case (JObj kvs)
  let ?f = "\<lambda>kv. QuoteJSONString (fst kv) @ 0x3A # JSON_stringify (snd kv)"
  from JObj.prems(1) obtain m where n: "n = Suc m"
    and m: "length (intercalate [0x2C] (map ?f kvs)) < m"
    by (cases n) auto
  show ?case
  proof (cases "kvs = []")
    case True
    then show ?thesis unfolding n by (simp add: parse_value_empty_object)
  next
    case False
    let ?cs = "intercalate [0x2C] (map ?f kvs) @ 0x7D # r"
    from False obtain kv ys where kvs: "kvs = kv # ys" by (cases kvs) auto
    have "\<exists>t. ?cs = 0x22 # t"
      unfolding kvs by (cases ys) (simp_all add: QuoteJSONString_def)
    then obtain t where t: "?cs = 0x22 # t" by blast
    have "skip_ws ?cs = 0x22 # t" unfolding t by simp
    moreover have "(0x22 :: 16 word) \<noteq> 0x7D" by simp
    ultimately have "parse_value (Suc m) (0x7B # ?cs) =
        (case parse_members m ?cs of None \<Rightarrow> None | Some (kvs, r) \<Rightarrow> Some (JObj kvs, r))"
      by (rule parse_value_object)
    moreover have "parse_members m ?cs = Some (kvs, r)"
    proof (rule parse_members_stringify [OF False _ m])
      fix k v n and r :: jstring
      assume "(k, v) \<in> set kvs" and "length (JSON_stringify v) \<le> n"
        and "\<forall>c cs. r = c # cs \<longrightarrow> c \<in> {0x2C, 0x5D, 0x7D}"
      then show "parse_value n (JSON_stringify v @ r) = Some (v, r)"
        by (intro JObj.IH [of "(k, v)" v]) simp_all
    qed
    ultimately show ?thesis unfolding n by simp
  qed
qed

text \<open>
  \<open>JSON.parse\<close> gives back every value from the text that \<open>JSON.stringify\<close> made of it,
  and that text is not empty.
\<close>

lemma JSON_parse_JSON_stringify: "JSON_parse (JSON_stringify v) = Some v"
proof -
  have "parse_value (length (JSON_stringify v)) (JSON_stringify v @ []) = Some (v, [])"
    by (rule parse_value_JSON_stringify) simp_all
  then show ?thesis by (simp add: JSON_parse_def)
qed

section \<open>Persisted client storage\<close>

subsection \<open>The values of the page are read back at their types\<close>

lemma type_of_json_type_name: "type_of_json (JStr (type_name t)) = t"
  by (cases t) (simp_all add: type_of_json_def)

lemma schedule_of_json_schedule_name: "schedule_of_json (JStr (schedule_name c)) = c"
  by (cases c) (simp_all add: schedule_of_json_def)

lemma entries_of_json_config:
  "entries_of_json (JObj (map (\<lambda>kv. (fst kv, JStr (snd kv))) entries)) = entries"
  by (simp add: comp_def)

lemma step_of_json_json_of_step: "step_of_json (json_of_step step) = step"
  by (simp add: step_of_json_def json_of_step_def member_of_def type_of_json_type_name
        entries_of_json_config del: entries_of_json.simps)

lemma workflow_of_json_json_of_workflow: "workflow_of_json (json_of_workflow flow) = flow"
  by (simp add: workflow_of_json_def json_of_workflow_def member_of_def
        schedule_of_json_schedule_name comp_def step_of_json_json_of_step)

lemma workflows_of_json_json_of_workflows: "workflows_of_json (json_of_workflows ws) = ws"
  by (simp add: workflows_of_json_def json_of_workflows_def comp_def
        workflow_of_json_json_of_workflow)

subsection \<open>Reading a slot after writing it\<close>

lemma setLocalStorage_env [simp]:
  "has_window (setLocalStorage value_of b key v) = has_window b"
  "storage_denied (setLocalStorage value_of b key v) = storage_denied b"
  "accepts (setLocalStorage value_of b key v) = accepts b"
  by (simp_all add: setLocalStorage_def)

lemma setLocalStorage_other_key:
  "key' \<noteq> key \<Longrightarrow> items (setLocalStorage value_of b key v) key' = items b key'"
  by (simp add: setLocalStorage_def)

lemma setLocalStorage_same_key:
  "has_window b \<Longrightarrow> \<not> storage_denied b \<Longrightarrow> accepts b key (JSON_stringify (value_of v)) \<Longrightarrow>
   items (setLocalStorage value_of b key v) key = Some (JSON_stringify (value_of v))"
  by (simp add: setLocalStorage_def)

lemma getLocalStorage_get_set:
  assumes "has_window b" and "\<not> storage_denied b"
    and "accepts b key (JSON_stringify (value_of v))"
  shows "getLocalStorage as_T (setLocalStorage value_of b key v) key fallback = as_T (value_of v)"
  using assms
  by (simp add: getLocalStorage_def setLocalStorage_same_key JSON_parse_JSON_stringify
        JSON_stringify_not_empty)

lemma getLocalStorage_other_key:
  "key' \<noteq> key \<Longrightarrow>
   getLocalStorage as_T (setLocalStorage value_of b key v) key' fallback =
   getLocalStorage as_T b key' fallback"
  by (simp add: getLocalStorage_def setLocalStorage_other_key)

lemma STORAGE_KEYS_distinct:
  "STORAGE_KEYS_workflows \<noteq> STORAGE_KEYS_apiKey"
  "STORAGE_KEYS_workflows \<noteq> STORAGE_KEYS_channelId"
  "STORAGE_KEYS_apiKey \<noteq> STORAGE_KEYS_channelId"
  by (simp_all add: STORAGE_KEYS_workflows_def STORAGE_KEYS_apiKey_def STORAGE_KEYS_channelId_def)

lemma workflows_load_effect:
  "workflows (load_effect b s0) = getLocalStorage workflows_of_json b STORAGE_KEYS_workflows []"
  by (simp add: load_effect_def Let_def split: list.splits)

lemma workflows_startup:
  "workflows (fst (startup b)) = getLocalStorage workflows_of_json b STORAGE_KEYS_workflows []"
  by (simp add: startup_def Let_def workflows_load_effect)

text \<open>
  C7. When a list of workflows is written to its storage slot (the browser has a
  \<open>window\<close>, does not deny the storage and accepts the write of the text that
  \<open>JSON.stringify\<close> makes of the list), the next startup of the page, which reads the slot
  with \<open>JSON.parse\<close>, sets the same list as its workflows, whatever is written to the two
  other slots in between: the same workflow names, schedules and step sequences.
\<close>

theorem workflows_round_trip:
  assumes "has_window b" and "\<not> storage_denied b"
    and "accepts b STORAGE_KEYS_workflows (JSON_stringify (json_of_workflows (workflows s)))"
  shows "workflows (fst (startup
           (save_channelId_effect (save_apiKey_effect (save_workflows_effect b s) s1) s2)))
         = workflows s \<and>
         map name (workflows (fst (startup
           (save_channelId_effect (save_apiKey_effect (save_workflows_effect b s) s1) s2))))
         = map name (workflows s) \<and>
         map schedule (workflows (fst (startup
           (save_channelId_effect (save_apiKey_effect (save_workflows_effect b s) s1) s2))))
         = map schedule (workflows s) \<and>
         map steps (workflows (fst (startup
           (save_channelId_effect (save_apiKey_effect (save_workflows_effect b s) s1) s2))))
         = map steps (workflows s)"
proof -
  have "workflows (fst (startup
           (save_channelId_effect (save_apiKey_effect (save_workflows_effect b s) s1) s2)))
        = getLocalStorage workflows_of_json
            (setLocalStorage json_of_workflows b STORAGE_KEYS_workflows (workflows s))
            STORAGE_KEYS_workflows []"
    by (simp add: workflows_startup save_channelId_effect_def save_apiKey_effect_def
          save_workflows_effect_def getLocalStorage_other_key STORAGE_KEYS_distinct)
  also have "\<dots> = workflows_of_json (json_of_workflows (workflows s))"
    using assms by (rule getLocalStorage_get_set)
  also have "\<dots> = workflows s"
    by (rule workflows_of_json_json_of_workflows)
  finally show ?thesis by simp
qed

theorem workflows_round_trip_witness:
  "has_window example_browser \<and> \<not> storage_denied example_browser \<and>
   accepts example_browser STORAGE_KEYS_workflows
     (JSON_stringify (json_of_workflows example_workflows)) \<and>
   JSON_stringify (json_of_workflows example_workflows) = example_text \<and>
   workflows (fst (startup
     (save_channelId_effect
        (save_apiKey_effect
           (save_workflows_effect example_browser
              (example_state\<lparr>workflows := example_workflows\<rparr>))
           example_state)
        example_state))) = example_workflows"
proof -
  let ?s = "example_state\<lparr>workflows := example_workflows\<rparr>"
  have w: "workflows ?s = example_workflows" by simp
  have h: "has_window example_browser" "\<not> storage_denied example_browser"
    "accepts example_browser STORAGE_KEYS_workflows
       (JSON_stringify (json_of_workflows (workflows ?s)))"
    by (simp_all add: example_browser_def)
  have t: "JSON_stringify (json_of_workflows example_workflows) = example_text"
    by (simp add: example_workflows_def example_text_def json_of_workflows_def
          json_of_workflow_def json_of_step_def workflow_of_def step_of_def
          QuoteJSONString_def escape_unit_def escape_u_def hex_digit_def is_high_def is_low_def
          js_def)
  from workflows_round_trip [OF h, of example_state example_state] h t
  show ?thesis by (simp only: w) simp
qed

text \<open>
  The startup writes the list it has read back to the slot, when that write is
  accepted, so the slot holds the list after the startup as before it.
\<close>

lemma startup_keeps_slot:
  assumes "has_window b" and "\<not> storage_denied b"
    and "accepts b STORAGE_KEYS_workflows
           (JSON_stringify (json_of_workflows
              (getLocalStorage workflows_of_json b STORAGE_KEYS_workflows [])))"
  shows "items (snd (startup b)) STORAGE_KEYS_workflows =
         Some (JSON_stringify (json_of_workflows
                 (getLocalStorage workflows_of_json b STORAGE_KEYS_workflows [])))"
  using assms
  by (simp add: startup_def Let_def save_workflows_effect_def save_apiKey_effect_def
        save_channelId_effect_def workflows_load_effect setLocalStorage_same_key)

end
